theory Spec2Isabelle
  imports Main "HOL-Library.Word" "HOL-Library.Multiset"
begin

section \<open>Machine types and the free store\<close>

text \<open>
  The classes of \<^verbatim>\<open>ferric::foundation\<close> own raw arrays (\<^verbatim>\<open>int* data_\<close>) obtained with
  \<^verbatim>\<open>new int[n]\<close> and given back with \<^verbatim>\<open>delete[]\<close>. The free store is a table of blocks
  indexed by address. \<^verbatim>\<open>new\<close> appends a block, so every address it returns is different
  from every address handed out before; \<^verbatim>\<open>delete[]\<close> marks the entry as released. A
  pointer is \<open>None\<close> (\<^verbatim>\<open>nullptr\<close>) or \<open>Some\<close> address. A cell of a block is \<open>None\<close> until it
  is written: \<^verbatim>\<open>new int[n]\<close> does not initialise.

  \<^verbatim>\<open>int\<close> is a 32-bit word and \<^verbatim>\<open>size_t\<close> a 64-bit word; \<open>+\<close> on them wraps (for the
  signed counters the model takes the two's complement result).

  \<^verbatim>\<open>new int[n]\<close> throws \<^verbatim>\<open>std::bad_array_new_length\<close>, which is a \<^verbatim>\<open>std::bad_alloc\<close>, when
  the array would be larger than the implementation allows. The limit is implementation
  defined; the model takes \<^verbatim>\<open>PTRDIFF_MAX\<close> bytes, the largest size an object can have, with
  \<^verbatim>\<open>sizeof(int) = 4\<close>. A length is \<open>allocatable\<close> when the array stays within it, that is
  when \<open>n < 2\<^sup>6\<^sup>1\<close>. (Where the length check of an implementation lets a longer array
  pass, the allocation function throws \<^verbatim>\<open>std::bad_alloc\<close> for it; the model has the one
  error \<open>BadArrayNewLength\<close> for both.) An exception ends the run, as every other error
  does. Below the limit allocation succeeds: the free store is unbounded, and exhaustion
  of memory is not modelled.
\<close>

type_synonym cint = "32 word"
type_synonym size_t = "64 word"
type_synonym addr = nat
type_synonym pointer = "addr option"
type_synonym block = "cint option list"
type_synonym heap = "block option list"

datatype error =
    InvalidFree addr
  | NullAccess
  | DanglingAccess addr
  | OutOfBounds addr nat
  | UninitialisedRead addr nat
  | NoSuchObject nat
  | BadArrayNewLength

definition lookup :: "'a option list \<Rightarrow> nat \<Rightarrow> 'a option" where
  "lookup t k = (if k < length t then t ! k else None)"

definition sizeof_int :: nat where
  "sizeof_int = 4"

definition max_array_bytes :: nat where
  "max_array_bytes = 2 ^ 63 - 1"

definition allocatable :: "size_t \<Rightarrow> bool" where
  "allocatable n = (unat n * sizeof_int \<le> max_array_bytes)"

text \<open>
  \<^verbatim>\<open>new int[n]\<close>: a new block of \<open>n\<close> uninitialised cells at a new address, or the exception
  when \<open>n\<close> is beyond the limit.
\<close>

definition new_array :: "heap \<Rightarrow> size_t \<Rightarrow> error + addr \<times> heap" where
  "new_array h n =
     (if allocatable n then Inr (length h, h @ [Some (replicate (unat n) None)])
      else Inl BadArrayNewLength)"

text \<open>
  \<^verbatim>\<open>delete[] p\<close>: nothing for \<^verbatim>\<open>nullptr\<close>; releasing an address that holds no live block
  (never allocated, or released before) is the error \<open>InvalidFree\<close>.
\<close>

definition delete_array :: "heap \<Rightarrow> pointer \<Rightarrow> error + heap" where
  "delete_array h d =
     (case d of
        None \<Rightarrow> Inr h
      | Some p \<Rightarrow>
          (case lookup h p of
             None \<Rightarrow> Inl (InvalidFree p)
           | Some blk \<Rightarrow> Inr (h[p := None])))"

text \<open>\<^verbatim>\<open>d[i]\<close> as an rvalue and \<^verbatim>\<open>d[i] = v\<close>, with every way they can go wrong.\<close>

definition load :: "heap \<Rightarrow> pointer \<Rightarrow> nat \<Rightarrow> error + cint" where
  "load h d i =
     (case d of
        None \<Rightarrow> Inl NullAccess
      | Some p \<Rightarrow>
          (case lookup h p of
             None \<Rightarrow> Inl (DanglingAccess p)
           | Some blk \<Rightarrow>
               if i < length blk
               then (case blk ! i of
                       None \<Rightarrow> Inl (UninitialisedRead p i)
                     | Some v \<Rightarrow> Inr v)
               else Inl (OutOfBounds p i)))"

definition store :: "heap \<Rightarrow> pointer \<Rightarrow> nat \<Rightarrow> cint \<Rightarrow> error + heap" where
  "store h d i v =
     (case d of
        None \<Rightarrow> Inl NullAccess
      | Some p \<Rightarrow>
          (case lookup h p of
             None \<Rightarrow> Inl (DanglingAccess p)
           | Some blk \<Rightarrow>
               if i < length blk
               then Inr (h[p := Some (blk[i := Some v])])
               else Inl (OutOfBounds p i)))"

lemma inc_unat: "(i :: size_t) < n \<Longrightarrow> unat (i + 1) = Suc (unat i)"
proof -
  assume lt: "i < n"
  then have a: "unat i < unat n" by (simp add: word_less_nat_alt)
  have b: "unat n < 2 ^ 64" using unsigned_less [of n] by simp
  from a b have "unat i + unat (1 :: size_t) < 2 ^ LENGTH(64)" by simp
  then have "unat (i + 1) = unat i + unat (1 :: size_t)"
    by (simp only: unat_add_lem [THEN iffD1])
  then show ?thesis by simp
qed

lemma loop_measure: "(i :: size_t) < n \<Longrightarrow> unat n - unat (i + 1) < unat n - unat i"
  by (simp add: inc_unat word_less_nat_alt)

text \<open>
  The loop \<^verbatim>\<open>for (size_t i = 0; i < size_; ++i) data_[i] = value;\<close> of
  \<^verbatim>\<open>LargeBuffer::LargeBuffer(size_t)\<close> and \<^verbatim>\<open>LargeBuffer::fill\<close>, from index \<open>i\<close> on.
\<close>

function fill_loop :: "pointer \<Rightarrow> size_t \<Rightarrow> size_t \<Rightarrow> cint \<Rightarrow> heap \<Rightarrow> error + heap" where
  "fill_loop d i n v h =
     (if i < n
      then (case store h d (unat i) v of
              Inl e \<Rightarrow> Inl e
            | Inr h' \<Rightarrow> fill_loop d (i + 1) n v h')
      else Inr h)"
  by pat_completeness auto
termination
  by (relation "measure (\<lambda>(d, i, n, v, h). unat n - unat i)") (auto simp: loop_measure)

text \<open>
  The loop \<^verbatim>\<open>for (size_t i = 0; i < size_; ++i) data_[i] = other.data_[i];\<close> of the
  copy operations, from index \<open>i\<close> on: \<open>d\<close> is \<^verbatim>\<open>data_\<close> and \<open>s\<close> is \<^verbatim>\<open>other.data_\<close>.
\<close>

function copy_loop :: "pointer \<Rightarrow> pointer \<Rightarrow> size_t \<Rightarrow> size_t \<Rightarrow> heap \<Rightarrow> error + heap" where
  "copy_loop d s i n h =
     (if i < n
      then (case load h s (unat i) of
              Inl e \<Rightarrow> Inl e
            | Inr v \<Rightarrow>
                (case store h d (unat i) v of
                   Inl e \<Rightarrow> Inl e
                 | Inr h' \<Rightarrow> copy_loop d s (i + 1) n h'))
      else Inr h)"
  by pat_completeness auto
termination
  by (relation "measure (\<lambda>(d, s, i, n, h). unat n - unat i)") (auto simp: loop_measure)

section \<open>The two buffer classes\<close>

text \<open>
  \<^verbatim>\<open>ResourceManager\<close> (constructor_rules.hh) and \<^verbatim>\<open>LargeBuffer\<close> (move_semantics.hh)
  have the same private members, \<^verbatim>\<open>int* data_; size_t size_;\<close>. Objects live in a
  table indexed by object identity (the \<^verbatim>\<open>this\<close> pointer): constructing an object
  appends an entry, the destructor ends its lifetime (the entry becomes \<open>None\<close>).
  A member function takes the identities of \<^verbatim>\<open>*this\<close> and of its reference
  arguments, so that \<^verbatim>\<open>this != &other\<close> is a comparison of identities. Using an
  object outside its lifetime is the error \<open>NoSuchObject\<close>.
  The static counters of each class are fields of the state of that class.
\<close>

record buffer =
  m_data :: pointer
  m_size :: size_t

type_synonym ResourceManager = buffer
type_synonym LargeBuffer = buffer

record memory =
  objs :: "buffer option list"
  heap :: heap

record rm_state = memory +
  default_constructions :: cint
  copy_constructions :: cint
  move_constructions :: cint
  destructions :: cint

record lb_state = memory +
  copy_count :: size_t
  move_count :: size_t

subsection \<open>ResourceManager\<close>

text \<open>\<^verbatim>\<open>size > 0 ? new int[size] : nullptr\<close>\<close>

definition new_if_positive :: "heap \<Rightarrow> size_t \<Rightarrow> error + pointer \<times> heap" where
  "new_if_positive h n =
     (if n > 0
      then (case new_array h n of Inl e \<Rightarrow> Inl e | Inr (p, h') \<Rightarrow> Inr (Some p, h'))
      else Inr (None, h))"


definition std_copy :: "pointer \<Rightarrow> size_t \<Rightarrow> pointer \<Rightarrow> heap \<Rightarrow> error + heap" where
  "std_copy s n d h = copy_loop d s 0 n h"

definition ResourceManager_default_ctor :: "rm_state \<Rightarrow> nat \<times> rm_state" where
  "ResourceManager_default_ctor st =
     (length (objs st),
      st\<lparr>objs := objs st @ [Some \<lparr>m_data = None, m_size = 0\<rparr>],
         default_constructions := default_constructions st + 1\<rparr>)"


definition ResourceManager_dtor :: "nat \<Rightarrow> rm_state \<Rightarrow> error + rm_state" where
  "ResourceManager_dtor this st =
     (case lookup (objs st) this of
        None \<Rightarrow> Inl (NoSuchObject this)
      | Some t \<Rightarrow>
          (case delete_array (heap st) (m_data t) of
             Inl e \<Rightarrow> Inl e
           | Inr h \<Rightarrow>
               Inr (st\<lparr>objs := (objs st)[this := None],
                       heap := h,
                       destructions := destructions st + 1\<rparr>)))"

definition ResourceManager_copy_ctor :: "nat \<Rightarrow> rm_state \<Rightarrow> error + nat \<times> rm_state" where
  "ResourceManager_copy_ctor other st =
     (case lookup (objs st) other of
        None \<Rightarrow> Inl (NoSuchObject other)
      | Some o1 \<Rightarrow>
          (case new_if_positive (heap st) (m_size o1) of
             Inl e \<Rightarrow> Inl e
           | Inr (d, h1) \<Rightarrow>
               (case (if d \<noteq> None \<and> m_data o1 \<noteq> None
                      then std_copy (m_data o1) (m_size o1) d h1 else Inr h1) of
                  Inl e \<Rightarrow> Inl e
                | Inr h2 \<Rightarrow>
                    Inr (length (objs st),
                         st\<lparr>objs := objs st @ [Some \<lparr>m_data = d, m_size = m_size o1\<rparr>],
                            heap := h2,
                            copy_constructions := copy_constructions st + 1\<rparr>))))"

definition ResourceManager_copy_assign :: "nat \<Rightarrow> nat \<Rightarrow> rm_state \<Rightarrow> error + rm_state" where
  "ResourceManager_copy_assign this other st =
     (if this \<noteq> other then
        (case lookup (objs st) this of
           None \<Rightarrow> Inl (NoSuchObject this)
         | Some t \<Rightarrow>
         (case lookup (objs st) other of
           None \<Rightarrow> Inl (NoSuchObject other)
         | Some o1 \<Rightarrow>
         (case delete_array (heap st) (m_data t) of
           Inl e \<Rightarrow> Inl e
         | Inr h0 \<Rightarrow>
           (case new_if_positive h0 (m_size o1) of
              Inl e \<Rightarrow> Inl e
            | Inr (d, h1) \<Rightarrow>
                (case (if d \<noteq> None \<and> m_data o1 \<noteq> None
                       then std_copy (m_data o1) (m_size o1) d h1 else Inr h1) of
                   Inl e \<Rightarrow> Inl e
                 | Inr h2 \<Rightarrow>
                     Inr (st\<lparr>objs := (objs st)[this := Some \<lparr>m_data = d, m_size = m_size o1\<rparr>],
                             heap := h2\<rparr>))))))
      else Inr st)"

definition ResourceManager_move_ctor :: "nat \<Rightarrow> rm_state \<Rightarrow> error + nat \<times> rm_state" where
  "ResourceManager_move_ctor other st =
     (case lookup (objs st) other of
        None \<Rightarrow> Inl (NoSuchObject other)
      | Some o1 \<Rightarrow>
          Inr (length (objs st),
               st\<lparr>objs := (objs st)[other := Some \<lparr>m_data = None, m_size = 0\<rparr>]
                            @ [Some \<lparr>m_data = m_data o1, m_size = m_size o1\<rparr>],
                  move_constructions := move_constructions st + 1\<rparr>))"

definition ResourceManager_move_assign :: "nat \<Rightarrow> nat \<Rightarrow> rm_state \<Rightarrow> error + rm_state" where
  "ResourceManager_move_assign this other st =
     (if this \<noteq> other then
        (case lookup (objs st) this of
           None \<Rightarrow> Inl (NoSuchObject this)
         | Some t \<Rightarrow>
         (case lookup (objs st) other of
           None \<Rightarrow> Inl (NoSuchObject other)
         | Some o1 \<Rightarrow>
         (case delete_array (heap st) (m_data t) of
           Inl e \<Rightarrow> Inl e
         | Inr h0 \<Rightarrow>
             Inr (st\<lparr>objs := (objs st)[this := Some \<lparr>m_data = m_data o1, m_size = m_size o1\<rparr>,
                                      other := Some \<lparr>m_data = None, m_size = 0\<rparr>],
                     heap := h0\<rparr>))))
      else Inr st)"


text \<open>The accessors \<^verbatim>\<open>size()\<close>, \<^verbatim>\<open>data()\<close> and \<^verbatim>\<open>is_valid()\<close>.\<close>

definition ResourceManager_size :: "nat \<Rightarrow> rm_state \<Rightarrow> error + size_t" where
  "ResourceManager_size this st =
     (case lookup (objs st) this of None \<Rightarrow> Inl (NoSuchObject this) | Some t \<Rightarrow> Inr (m_size t))"

definition ResourceManager_data :: "nat \<Rightarrow> rm_state \<Rightarrow> error + pointer" where
  "ResourceManager_data this st =
     (case lookup (objs st) this of None \<Rightarrow> Inl (NoSuchObject this) | Some t \<Rightarrow> Inr (m_data t))"

definition ResourceManager_is_valid :: "nat \<Rightarrow> rm_state \<Rightarrow> error + bool" where
  "ResourceManager_is_valid this st =
     (case lookup (objs st) this of
        None \<Rightarrow> Inl (NoSuchObject this)
      | Some t \<Rightarrow> Inr (m_data t \<noteq> None))"

subsection \<open>LargeBuffer\<close>


definition LargeBuffer_copy_ctor :: "nat \<Rightarrow> lb_state \<Rightarrow> error + nat \<times> lb_state" where
  "LargeBuffer_copy_ctor other st =
     (case lookup (objs st) other of
        None \<Rightarrow> Inl (NoSuchObject other)
      | Some o1 \<Rightarrow>
          (case new_array (heap st) (m_size o1) of
             Inl e \<Rightarrow> Inl e
           | Inr (p, h1) \<Rightarrow>
               (case copy_loop (Some p) (m_data o1) 0 (m_size o1) h1 of
                  Inl e \<Rightarrow> Inl e
                | Inr h2 \<Rightarrow>
                    Inr (length (objs st),
                         st\<lparr>objs := objs st @ [Some \<lparr>m_data = Some p, m_size = m_size o1\<rparr>],
                            heap := h2,
                            copy_count := copy_count st + 1\<rparr>))))"

definition LargeBuffer_copy_assign :: "nat \<Rightarrow> nat \<Rightarrow> lb_state \<Rightarrow> error + lb_state" where
  "LargeBuffer_copy_assign this other st =
     (if this \<noteq> other then
        (case lookup (objs st) this of
           None \<Rightarrow> Inl (NoSuchObject this)
         | Some t \<Rightarrow>
         (case lookup (objs st) other of
           None \<Rightarrow> Inl (NoSuchObject other)
         | Some o1 \<Rightarrow>
         (case delete_array (heap st) (m_data t) of
           Inl e \<Rightarrow> Inl e
         | Inr h0 \<Rightarrow>
           (case new_array h0 (m_size o1) of
              Inl e \<Rightarrow> Inl e
            | Inr (p, h1) \<Rightarrow>
                (case copy_loop (Some p) (m_data o1) 0 (m_size o1) h1 of
                   Inl e \<Rightarrow> Inl e
                 | Inr h2 \<Rightarrow>
                     Inr (st\<lparr>objs := (objs st)[this := Some \<lparr>m_data = Some p, m_size = m_size o1\<rparr>],
                             heap := h2,
                             copy_count := copy_count st + 1\<rparr>))))))
      else Inr st)"

definition LargeBuffer_move_ctor :: "nat \<Rightarrow> lb_state \<Rightarrow> error + nat \<times> lb_state" where
  "LargeBuffer_move_ctor other st =
     (case lookup (objs st) other of
        None \<Rightarrow> Inl (NoSuchObject other)
      | Some o1 \<Rightarrow>
          Inr (length (objs st),
               st\<lparr>objs := (objs st)[other := Some \<lparr>m_data = None, m_size = 0\<rparr>]
                            @ [Some \<lparr>m_data = m_data o1, m_size = m_size o1\<rparr>],
                  move_count := move_count st + 1\<rparr>))"

definition LargeBuffer_move_assign :: "nat \<Rightarrow> nat \<Rightarrow> lb_state \<Rightarrow> error + lb_state" where
  "LargeBuffer_move_assign this other st =
     (if this \<noteq> other then
        (case lookup (objs st) this of
           None \<Rightarrow> Inl (NoSuchObject this)
         | Some t \<Rightarrow>
         (case lookup (objs st) other of
           None \<Rightarrow> Inl (NoSuchObject other)
         | Some o1 \<Rightarrow>
         (case delete_array (heap st) (m_data t) of
           Inl e \<Rightarrow> Inl e
         | Inr h0 \<Rightarrow>
             Inr (st\<lparr>objs := (objs st)[this := Some \<lparr>m_data = m_data o1, m_size = m_size o1\<rparr>,
                                      other := Some \<lparr>m_data = None, m_size = 0\<rparr>],
                     heap := h0,
                     move_count := move_count st + 1\<rparr>))))
      else Inr st)"

definition LargeBuffer_dtor :: "nat \<Rightarrow> lb_state \<Rightarrow> error + lb_state" where
  "LargeBuffer_dtor this st =
     (case lookup (objs st) this of
        None \<Rightarrow> Inl (NoSuchObject this)
      | Some t \<Rightarrow>
          (case delete_array (heap st) (m_data t) of
             Inl e \<Rightarrow> Inl e
           | Inr h \<Rightarrow> Inr (st\<lparr>objs := (objs st)[this := None], heap := h\<rparr>)))"

definition LargeBuffer_fill :: "nat \<Rightarrow> cint \<Rightarrow> lb_state \<Rightarrow> error + lb_state" where
  "LargeBuffer_fill this v st =
     (case lookup (objs st) this of
        None \<Rightarrow> Inl (NoSuchObject this)
      | Some t \<Rightarrow>
          (case fill_loop (m_data t) 0 (m_size t) v (heap st) of
             Inl e \<Rightarrow> Inl e
           | Inr h \<Rightarrow> Inr (st\<lparr>heap := h\<rparr>)))"

definition LargeBuffer_size :: "nat \<Rightarrow> lb_state \<Rightarrow> error + size_t" where
  "LargeBuffer_size this st =
     (case lookup (objs st) this of None \<Rightarrow> Inl (NoSuchObject this) | Some t \<Rightarrow> Inr (m_size t))"


section \<open>Well-formed memory\<close>

text \<open>
  A buffer object owns its block when its pointer is null and its size 0, or its pointer
  is the address of a live block of exactly \<open>size_\<close> cells, all written; \<open>size_\<close> is then a
  length that \<^verbatim>\<open>new int[]\<close> accepts, since the block came from there. A memory is
  well formed when every live object owns its block and no block has two owners.
  \<open>contents\<close> reads the elements an object holds (no elements for a null pointer).
\<close>

definition owns :: "heap \<Rightarrow> buffer \<Rightarrow> bool" where
  "owns h b =
     (case m_data b of
        None \<Rightarrow> m_size b = 0
      | Some p \<Rightarrow>
          (case lookup h p of
             None \<Rightarrow> False
           | Some blk \<Rightarrow>
               length blk = unat (m_size b) \<and> list_all (\<lambda>c. c \<noteq> None) blk
               \<and> allocatable (m_size b)))"

definition pointers :: "buffer option list \<Rightarrow> addr list" where
  "pointers os =
     concat (map (\<lambda>x. case x of None \<Rightarrow> []
                          | Some b \<Rightarrow> (case m_data b of None \<Rightarrow> [] | Some p \<Rightarrow> [p])) os)"

definition consistent :: "buffer option list \<Rightarrow> heap \<Rightarrow> bool" where
  "consistent os h =
     (list_all (\<lambda>x. case x of None \<Rightarrow> True | Some b \<Rightarrow> owns h b) os \<and> distinct (pointers os))"

definition well_formed :: "'a memory_scheme \<Rightarrow> bool" where
  "well_formed m = consistent (objs m) (heap m)"

definition contents :: "'a memory_scheme \<Rightarrow> nat \<Rightarrow> block option" where
  "contents m this =
     (case lookup (objs m) this of
        None \<Rightarrow> None
      | Some b \<Rightarrow> (case m_data b of None \<Rightarrow> Some [] | Some p \<Rightarrow> lookup (heap m) p))"

subsection \<open>Sequences of buffer operations\<close>










section \<open>The exclusive handles\<close>

text \<open>
  \<^verbatim>\<open>MoveOnlyResource\<close> (constructor_rules.hh) and \<^verbatim>\<open>FileGuard\<close> (smart_pointers.hh): a
  string and a flag. Both delete their copy constructor and copy assignment, so the only
  operations are construction from a name, move construction, move assignment and the
  destructor. A \<^verbatim>\<open>std::string\<close> that has been moved from is left valid with an
  unspecified value; the model takes the empty string, and no statement below depends on
  it.
\<close>

definition moved_from_string :: "string \<Rightarrow> string" where
  "moved_from_string s = []"

record MoveOnlyResource =
  name :: string
  valid :: bool

type_synonym mor_state = "MoveOnlyResource option list"

definition MoveOnlyResource_ctor :: "string \<Rightarrow> mor_state \<Rightarrow> nat \<times> mor_state" where
  "MoveOnlyResource_ctor nm st = (length st, st @ [Some \<lparr>name = nm, valid = True\<rparr>])"

text \<open>The destructor clears the flag; then the lifetime of the object is over.\<close>

definition MoveOnlyResource_dtor :: "nat \<Rightarrow> mor_state \<Rightarrow> error + mor_state" where
  "MoveOnlyResource_dtor this st =
     (case lookup st this of
        None \<Rightarrow> Inl (NoSuchObject this)
      | Some t \<Rightarrow> Inr ((st[this := Some (t\<lparr>valid := False\<rparr>)])[this := None]))"

definition MoveOnlyResource_move_ctor :: "nat \<Rightarrow> mor_state \<Rightarrow> error + nat \<times> mor_state" where
  "MoveOnlyResource_move_ctor other st =
     (case lookup st other of
        None \<Rightarrow> Inl (NoSuchObject other)
      | Some o1 \<Rightarrow>
          Inr (length st,
               st[other := Some \<lparr>name = moved_from_string (name o1), valid = False\<rparr>]
                 @ [Some \<lparr>name = name o1, valid = valid o1\<rparr>]))"

definition MoveOnlyResource_move_assign :: "nat \<Rightarrow> nat \<Rightarrow> mor_state \<Rightarrow> error + mor_state" where
  "MoveOnlyResource_move_assign this other st =
     (if this \<noteq> other then
        (case lookup st this of
           None \<Rightarrow> Inl (NoSuchObject this)
         | Some t \<Rightarrow>
         (case lookup st other of
           None \<Rightarrow> Inl (NoSuchObject other)
         | Some o1 \<Rightarrow>
             Inr (st[this := Some \<lparr>name = name o1, valid = valid o1\<rparr>,
                     other := Some \<lparr>name = moved_from_string (name o1), valid = False\<rparr>])))
      else Inr st)"



record FileGuard =
  filename :: string
  is_open :: bool

type_synonym fg_state = "FileGuard option list"

definition FileGuard_ctor :: "string \<Rightarrow> fg_state \<Rightarrow> nat \<times> fg_state" where
  "FileGuard_ctor fn st = (length st, st @ [Some \<lparr>filename = fn, is_open = True\<rparr>])"

definition FileGuard_close :: "FileGuard \<Rightarrow> FileGuard" where
  "FileGuard_close g = (if is_open g then g\<lparr>is_open := False\<rparr> else g)"

definition FileGuard_dtor :: "nat \<Rightarrow> fg_state \<Rightarrow> error + fg_state" where
  "FileGuard_dtor this st =
     (case lookup st this of
        None \<Rightarrow> Inl (NoSuchObject this)
      | Some t \<Rightarrow> Inr ((st[this := Some (FileGuard_close t)])[this := None]))"

definition FileGuard_move_ctor :: "nat \<Rightarrow> fg_state \<Rightarrow> error + nat \<times> fg_state" where
  "FileGuard_move_ctor other st =
     (case lookup st other of
        None \<Rightarrow> Inl (NoSuchObject other)
      | Some o1 \<Rightarrow>
          Inr (length st,
               st[other := Some \<lparr>filename = moved_from_string (filename o1), is_open = False\<rparr>]
                 @ [Some \<lparr>filename = filename o1, is_open = is_open o1\<rparr>]))"

definition FileGuard_move_assign :: "nat \<Rightarrow> nat \<Rightarrow> fg_state \<Rightarrow> error + fg_state" where
  "FileGuard_move_assign this other st =
     (if this \<noteq> other then
        (case lookup st this of
           None \<Rightarrow> Inl (NoSuchObject this)
         | Some t \<Rightarrow>
         (case lookup st other of
           None \<Rightarrow> Inl (NoSuchObject other)
         | Some o1 \<Rightarrow>
             Inr (st[this := Some ((FileGuard_close t)\<lparr>filename := filename o1, is_open := is_open o1\<rparr>),
                     other := Some \<lparr>filename = moved_from_string (filename o1), is_open = False\<rparr>])))
      else Inr st)"

definition FileGuard_is_open :: "nat \<Rightarrow> fg_state \<Rightarrow> error + bool" where
  "FileGuard_is_open this st =
     (case lookup st this of None \<Rightarrow> Inl (NoSuchObject this) | Some t \<Rightarrow> Inr (is_open t))"

definition FileGuard_filename :: "nat \<Rightarrow> fg_state \<Rightarrow> error + string" where
  "FileGuard_filename this st =
     (case lookup st this of None \<Rightarrow> Inl (NoSuchObject this) | Some t \<Rightarrow> Inr (filename t))"

subsection \<open>Sequences of handle operations\<close>

text \<open>
  What a client can do with handles: acquire one by constructing it from a name,
  move-construct a new handle from one, move-assign one to another, destroy one. There is
  no constructor for a copy and no copy assignment: both are deleted in the two classes.
\<close>

datatype handle_op = Acquire string | MoveConstruct nat | MoveAssign nat nat | Destroy nat

fun mor_apply :: "handle_op \<Rightarrow> mor_state \<Rightarrow> error + mor_state" where
  "mor_apply (Acquire nm) st = Inr (snd (MoveOnlyResource_ctor nm st))"
| "mor_apply (MoveConstruct x) st = map_sum id snd (MoveOnlyResource_move_ctor x st)"
| "mor_apply (MoveAssign x y) st = MoveOnlyResource_move_assign x y st"
| "mor_apply (Destroy x) st = MoveOnlyResource_dtor x st"

fun mor_run :: "handle_op list \<Rightarrow> mor_state \<Rightarrow> error + mor_state" where
  "mor_run [] st = Inr st"
| "mor_run (x # xs) st = (case mor_apply x st of Inl e \<Rightarrow> Inl e | Inr st' \<Rightarrow> mor_run xs st')"

fun fg_apply :: "handle_op \<Rightarrow> fg_state \<Rightarrow> error + fg_state" where
  "fg_apply (Acquire fn) st = Inr (snd (FileGuard_ctor fn st))"
| "fg_apply (MoveConstruct x) st = map_sum id snd (FileGuard_move_ctor x st)"
| "fg_apply (MoveAssign x y) st = FileGuard_move_assign x y st"
| "fg_apply (Destroy x) st = FileGuard_dtor x st"

fun fg_run :: "handle_op list \<Rightarrow> fg_state \<Rightarrow> error + fg_state" where
  "fg_run [] st = Inr st"
| "fg_run (x # xs) st = (case fg_apply x st of Inl e \<Rightarrow> Inl e | Inr st' \<Rightarrow> fg_run xs st')"

text \<open>
  What \<^verbatim>\<open>is_valid()\<close> and \<^verbatim>\<open>is_open()\<close> answer for each object, in order of object identity;
  \<open>False\<close> for an object that has been destroyed.
\<close>

definition mor_flags :: "mor_state \<Rightarrow> bool list" where
  "mor_flags st = map (\<lambda>x. case x of None \<Rightarrow> False | Some r \<Rightarrow> valid r) st"

definition fg_flags :: "fg_state \<Rightarrow> bool list" where
  "fg_flags st = map (\<lambda>x. case x of None \<Rightarrow> False | Some g \<Rightarrow> is_open g) st"

text \<open>The number of live guards that are open.\<close>

definition open_guards :: "fg_state \<Rightarrow> nat" where
  "open_guards st = length (filter (\<lambda>x. case x of None \<Rightarrow> False | Some g \<Rightarrow> is_open g) st)"

subsection \<open>The acquisition behind a handle\<close>

text \<open>
  An acquisition is a call of the constructor from a name; it is identified by the object
  that call created (an object identity is never used twice). The origin of a handle
  object is the acquisition it stands for: its own for a newly constructed handle, and the
  origin of the source for the destination of a move construction or of a move assignment.
  The source of a move and a destroyed object keep the origin they had. This bookkeeping
  is no state of the program: it follows which operations were called on which objects,
  never what the operations did to the flags. (An operation on an object that does not
  exist fails in the program; the origins are of no interest then.)
\<close>

fun origin_step :: "handle_op \<Rightarrow> nat list \<Rightarrow> nat list" where
  "origin_step (Acquire nm) ts = ts @ [length ts]"
| "origin_step (MoveConstruct x) ts = ts @ [ts ! x]"
| "origin_step (MoveAssign x y) ts = ts[x := ts ! y]"
| "origin_step (Destroy x) ts = ts"

fun origins :: "handle_op list \<Rightarrow> nat list \<Rightarrow> nat list" where
  "origins [] ts = ts"
| "origins (x # xs) ts = origins xs (origin_step x ts)"

text \<open>The objects that are valid handles for acquisition \<open>a\<close>.\<close>

definition holders :: "bool list \<Rightarrow> nat list \<Rightarrow> nat \<Rightarrow> nat list" where
  "holders fl ts a = filter (\<lambda>i. fl ! i \<and> ts ! i = a) [0..<length fl]"

text \<open>
  Origins \<open>ts\<close> fit flags \<open>fl\<close> when every object has an origin, every origin is an object,
  and no two objects with their flag set have the same origin.
\<close>

definition exclusive :: "bool list \<Rightarrow> nat list \<Rightarrow> bool" where
  "exclusive fl ts =
     (length ts = length fl \<and> list_all (\<lambda>t. t < length ts) ts \<and>
      list_all (\<lambda>i. list_all (\<lambda>j. fl ! i \<and> fl ! j \<and> ts ! i = ts ! j \<longrightarrow> i = j) [0..<length fl])
        [0..<length fl])"

section \<open>The shared resource\<close>

text \<open>
  \<^verbatim>\<open>Resource\<close> (smart_pointers.hh) counts its live instances in the static
  \<^verbatim>\<open>instance_count_\<close>. It is held through \<^verbatim>\<open>std::shared_ptr<Resource>\<close>, which is not code
  of the repository; the model gives it the meaning the C++ standard does: a control
  block with the managed object and the number of \<^verbatim>\<open>shared_ptr\<close> objects that share it,
  incremented by a copy, decremented by a destructor, the managed object destroyed when
  the count reaches 0, and unchanged by a move, which leaves its source empty. A
  \<^verbatim>\<open>shared_ptr\<close> is \<open>None\<close> (empty) or the address of its control block.
\<close>

record Resource =
  res_id :: cint

record control_block =
  managed :: Resource
  use_count :: nat

record sp_state =
  blocks :: "control_block option list"
  instance_count :: cint

type_synonym shared_ptr = "nat option"

definition Resource_ctor :: "cint \<Rightarrow> sp_state \<Rightarrow> Resource \<times> sp_state" where
  "Resource_ctor i st = (\<lparr>res_id = i\<rparr>, st\<lparr>instance_count := instance_count st + 1\<rparr>)"

definition Resource_dtor :: "Resource \<Rightarrow> sp_state \<Rightarrow> sp_state" where
  "Resource_dtor r st = st\<lparr>instance_count := instance_count st - 1\<rparr>"

definition make_shared :: "cint \<Rightarrow> sp_state \<Rightarrow> shared_ptr \<times> sp_state" where
  "make_shared i st =
     (let (r, st1) = Resource_ctor i st in
      (Some (length (blocks st1)),
       st1\<lparr>blocks := blocks st1 @ [Some \<lparr>managed = r, use_count = 1\<rparr>]\<rparr>))"

definition create_shared_resource :: "cint \<Rightarrow> sp_state \<Rightarrow> shared_ptr \<times> sp_state" where
  "create_shared_resource i st = make_shared i st"

definition shared_ptr_copy :: "shared_ptr \<Rightarrow> sp_state \<Rightarrow> error + shared_ptr \<times> sp_state" where
  "shared_ptr_copy sp st =
     (case sp of
        None \<Rightarrow> Inr (None, st)
      | Some p \<Rightarrow>
          (case lookup (blocks st) p of
             None \<Rightarrow> Inl (DanglingAccess p)
           | Some cb \<Rightarrow>
               Inr (Some p, st\<lparr>blocks := (blocks st)[p := Some (cb\<lparr>use_count := use_count cb + 1\<rparr>)]\<rparr>)))"

definition shared_ptr_dtor :: "shared_ptr \<Rightarrow> sp_state \<Rightarrow> error + sp_state" where
  "shared_ptr_dtor sp st =
     (case sp of
        None \<Rightarrow> Inr st
      | Some p \<Rightarrow>
          (case lookup (blocks st) p of
             None \<Rightarrow> Inl (DanglingAccess p)
           | Some cb \<Rightarrow>
               if use_count cb - 1 = 0
               then Inr (Resource_dtor (managed cb) (st\<lparr>blocks := (blocks st)[p := None]\<rparr>))
               else Inr (st\<lparr>blocks := (blocks st)[p := Some (cb\<lparr>use_count := use_count cb - 1\<rparr>)]\<rparr>)))"

text \<open>A move: the new \<^verbatim>\<open>shared_ptr\<close>, and what is left in the source.\<close>

definition shared_ptr_move :: "shared_ptr \<Rightarrow> shared_ptr \<times> shared_ptr" where
  "shared_ptr_move sp = (sp, None)"

definition shared_ptr_use_count :: "shared_ptr \<Rightarrow> sp_state \<Rightarrow> error + nat" where
  "shared_ptr_use_count sp st =
     (case sp of
        None \<Rightarrow> Inr 0
      | Some p \<Rightarrow>
          (case lookup (blocks st) p of
             None \<Rightarrow> Inl (DanglingAccess p)
           | Some cb \<Rightarrow> Inr (use_count cb)))"

lemma inc_sint: "(i :: cint) <s n \<Longrightarrow> sint (i + 1) = sint i + 1"
proof -
  assume "i <s n"
  then have a: "sint i < sint n" by (simp add: word_sless_alt)
  have b: "sint n < 2 ^ 31" using sint_lt [of n] by simp
  have c: "- (2 ^ 31) \<le> sint i" using sint_ge [of i] by simp
  have "sint (i + 1) = signed_take_bit 31 (sint i + 1)"
    by (simp add: sint_word_ariths)
  also have "\<dots> = sint i + 1"
    using a b c by (intro signed_take_bit_int_eq_self) simp_all
  finally show ?thesis .
qed

text \<open>
  \<^verbatim>\<open>share_resource\<close>: the loop \<^verbatim>\<open>for (int i = 0; i < copies; ++i) result.push_back(resource);\<close>
  from \<open>i\<close> on, each \<^verbatim>\<open>push_back\<close> copying the parameter; then the function returns and
  its by-value parameter \<^verbatim>\<open>resource\<close> is destroyed.
\<close>

function share_loop ::
  "shared_ptr \<Rightarrow> cint \<Rightarrow> cint \<Rightarrow> shared_ptr list \<Rightarrow> sp_state \<Rightarrow> error + shared_ptr list \<times> sp_state" where
  "share_loop resource i copies result st =
     (if i <s copies
      then (case shared_ptr_copy resource st of
              Inl e \<Rightarrow> Inl e
            | Inr (c, st') \<Rightarrow> share_loop resource (i + 1) copies (result @ [c]) st')
      else Inr (result, st))"
  by pat_completeness auto
termination
  by (relation "measure (\<lambda>(r, i, n, acc, st). nat (sint n - sint i))")
     (auto simp: inc_sint word_sless_alt)

definition share_resource ::
  "shared_ptr \<Rightarrow> cint \<Rightarrow> sp_state \<Rightarrow> error + shared_ptr list \<times> sp_state" where
  "share_resource resource copies st =
     (case share_loop resource 0 copies [] st of
        Inl e \<Rightarrow> Inl e
      | Inr (result, st1) \<Rightarrow>
          (case shared_ptr_dtor resource st1 of
             Inl e \<Rightarrow> Inl e
           | Inr st2 \<Rightarrow> Inr (result, st2)))"

text \<open>
  Copying a reference \<open>k\<close> times and destroying a list of references, one after the
  other.
\<close>

fun duplicate_times :: "nat \<Rightarrow> shared_ptr \<Rightarrow> sp_state \<Rightarrow> error + shared_ptr list \<times> sp_state" where
  "duplicate_times 0 sp st = Inr ([], st)"
| "duplicate_times (Suc k) sp st =
     (case shared_ptr_copy sp st of
        Inl e \<Rightarrow> Inl e
      | Inr (c, st') \<Rightarrow>
          (case duplicate_times k sp st' of
             Inl e \<Rightarrow> Inl e
           | Inr (cs, st'') \<Rightarrow> Inr (c # cs, st'')))"

fun release_all :: "shared_ptr list \<Rightarrow> sp_state \<Rightarrow> error + sp_state" where
  "release_all [] st = Inr st"
| "release_all (sp # sps) st =
     (case shared_ptr_dtor sp st of Inl e \<Rightarrow> Inl e | Inr st' \<Rightarrow> release_all sps st')"

section \<open>Example states\<close>

text \<open>
  One \<^verbatim>\<open>ResourceManager\<close> and one \<^verbatim>\<open>LargeBuffer\<close> world, each with two live buffers:
  object 0 holds the elements 5, 7 and object 1 holds the element 9.
\<close>

definition rm_example :: rm_state where
  "rm_example =
     \<lparr>objs = [Some \<lparr>m_data = Some 0, m_size = 2\<rparr>, Some \<lparr>m_data = Some 1, m_size = 1\<rparr>],
      heap = [Some [Some 5, Some 7], Some [Some 9]],
      default_constructions = 2, copy_constructions = 0,
      move_constructions = 0, destructions = 0\<rparr>"

definition lb_example :: lb_state where
  "lb_example =
     \<lparr>objs = [Some \<lparr>m_data = Some 0, m_size = 2\<rparr>, Some \<lparr>m_data = Some 1, m_size = 1\<rparr>],
      heap = [Some [Some 5, Some 7], Some [Some 9]],
      copy_count = 0, move_count = 0\<rparr>"




definition fg_pair :: fg_state where
  "fg_pair = [Some \<lparr>filename = ''file1.txt'', is_open = True\<rparr>,
              Some \<lparr>filename = ''file2.txt'', is_open = True\<rparr>]"

text \<open>The shared-resource world before any resource exists.\<close>

definition sp_init :: sp_state where
  "sp_init = \<lparr>blocks = [], instance_count = 0\<rparr>"

text \<open>The example worlds after object 0 has been moved into a new object 2.\<close>

definition rm_moved :: rm_state where
  "rm_moved =
     \<lparr>objs = [Some \<lparr>m_data = None, m_size = 0\<rparr>, Some \<lparr>m_data = Some 1, m_size = 1\<rparr>,
              Some \<lparr>m_data = Some 0, m_size = 2\<rparr>],
      heap = [Some [Some 5, Some 7], Some [Some 9]],
      default_constructions = 2, copy_constructions = 0,
      move_constructions = 1, destructions = 0\<rparr>"

definition lb_moved :: lb_state where
  "lb_moved =
     \<lparr>objs = [Some \<lparr>m_data = None, m_size = 0\<rparr>, Some \<lparr>m_data = Some 1, m_size = 1\<rparr>,
              Some \<lparr>m_data = Some 0, m_size = 2\<rparr>],
      heap = [Some [Some 5, Some 7], Some [Some 9]],
      copy_count = 0, move_count = 1\<rparr>"

definition fg_moved :: fg_state where
  "fg_moved = [Some \<lparr>filename = [], is_open = False\<rparr>,
               Some \<lparr>filename = ''file2.txt'', is_open = True\<rparr>,
               Some \<lparr>filename = ''file1.txt'', is_open = True\<rparr>]"

section \<open>Supporting facts\<close>

subsection \<open>Tables\<close>

lemma lookup_append:
  "lookup (t @ [x]) k = (if k < length t then lookup t k else if k = length t then x else None)"
  by (simp add: lookup_def nth_append)

lemma lookup_update:
  "lookup (t[i := x]) k = (if k = i \<and> i < length t then x else lookup t k)"
  by (simp add: lookup_def)

lemma lookup_Some_less: "lookup t k = Some v \<Longrightarrow> k < length t"
  by (simp add: lookup_def split: if_splits)

lemma lookup_Some_nth: "lookup t k = Some v \<Longrightarrow> t ! k = Some v"
  by (simp add: lookup_def split: if_splits)

lemma update_lookup_same: "lookup t k = Some v \<Longrightarrow> t[k := Some v] = t"
  by (simp add: lookup_def list_update_same_conv split: if_splits)

subsection \<open>The loops, from any index\<close>

text \<open>
  A loop over a live block that is long enough succeeds; it rewrites exactly the cells
  from its index up to its bound.
\<close>

lemma fill_loop_spec:
  "lookup h p = Some blk \<Longrightarrow> unat n \<le> length blk \<Longrightarrow> d = Some p \<Longrightarrow>
   \<exists>blk'. fill_loop d i n v h = Inr (h[p := Some blk']) \<and> length blk' = length blk \<and>
     (\<forall>j < length blk. blk' ! j = (if unat i \<le> j \<and> j < unat n then Some v else blk ! j))"
proof (induction d i n v h arbitrary: blk rule: fill_loop.induct)
  case (1 d i n v h)
  show ?case
  proof (cases "i < n")
    case False
    then have a: "fill_loop d i n v h = Inr h" by simp
    have b: "h[p := Some blk] = h" using "1.prems"(1) by (rule update_lookup_same)
    from False have c: "\<not> (unat i \<le> j \<and> j < unat n)" for j
      by (auto simp: word_less_nat_alt)
    show ?thesis unfolding a using b c by (intro exI[of _ blk]) auto
  next
    case True
    then have lt: "unat i < unat n" by (simp add: word_less_nat_alt)
    with "1.prems" have inb: "unat i < length blk" by simp
    let ?b1 = "blk[unat i := Some v]"
    let ?h1 = "h[p := Some ?b1]"
    have st: "store h d (unat i) v = Inr ?h1"
      using "1.prems" inb by (simp add: store_def)
    have l1: "lookup ?h1 p = Some ?b1"
      using "1.prems"(1) by (simp add: lookup_update lookup_Some_less)
    from "1.IH"[OF True st l1 _ "1.prems"(3)] "1.prems"(2)
    obtain blk' where r: "fill_loop d (i + 1) n v ?h1 = Inr (?h1[p := Some blk'])"
      and len: "length blk' = length ?b1"
      and pt: "\<forall>j < length ?b1. blk' ! j = (if unat (i + 1) \<le> j \<and> j < unat n then Some v else ?b1 ! j)"
      by auto
    have "fill_loop d i n v h = Inr (h[p := Some blk'])"
      using True st r by (subst fill_loop.simps) simp
    moreover have "length blk' = length blk" using len by simp
    moreover have "\<forall>j < length blk. blk' ! j = (if unat i \<le> j \<and> j < unat n then Some v else blk ! j)"
      using pt inb lt by (auto simp: inc_unat[OF True] nth_list_update)
    ultimately show ?thesis by blast
  qed
qed

lemma copy_loop_spec:
  "lookup h q = Some sblk \<Longrightarrow> list_all (\<lambda>c. c \<noteq> None) sblk \<Longrightarrow> unat n \<le> length sblk \<Longrightarrow>
   lookup h p = Some blk \<Longrightarrow> unat n \<le> length blk \<Longrightarrow> p \<noteq> q \<Longrightarrow> d = Some p \<Longrightarrow> s = Some q \<Longrightarrow>
   \<exists>blk'. copy_loop d s i n h = Inr (h[p := Some blk']) \<and> length blk' = length blk \<and>
     (\<forall>j < length blk. blk' ! j = (if unat i \<le> j \<and> j < unat n then sblk ! j else blk ! j))"
proof (induction d s i n h arbitrary: blk rule: copy_loop.induct)
  case (1 d s i n h)
  show ?case
  proof (cases "i < n")
    case False
    then have a: "copy_loop d s i n h = Inr h" by simp
    have b: "h[p := Some blk] = h" using "1.prems"(4) by (rule update_lookup_same)
    from False have c: "\<not> (unat i \<le> j \<and> j < unat n)" for j
      by (auto simp: word_less_nat_alt)
    show ?thesis unfolding a using b c by (intro exI[of _ blk]) auto
  next
    case True
    then have lt: "unat i < unat n" by (simp add: word_less_nat_alt)
    with "1.prems" have inb: "unat i < length blk" and ins: "unat i < length sblk" by simp_all
    from ins "1.prems"(2) obtain w where w: "sblk ! unat i = Some w"
      by (auto simp: list_all_length)
    let ?b1 = "blk[unat i := Some w]"
    let ?h1 = "h[p := Some ?b1]"
    have ld: "load h s (unat i) = Inr w"
      using "1.prems" ins w by (simp add: load_def)
    have st: "store h d (unat i) w = Inr ?h1"
      using "1.prems" inb by (simp add: store_def)
    have l1: "lookup ?h1 p = Some ?b1"
      using "1.prems"(4) by (simp add: lookup_update lookup_Some_less)
    have l2: "lookup ?h1 q = Some sblk"
      using "1.prems"(1,6) by (simp add: lookup_update)
    from "1.IH"[OF True ld st l2 "1.prems"(2,3) l1 _ "1.prems"(6,7,8)] "1.prems"(5)
    obtain blk' where r: "copy_loop d s (i + 1) n ?h1 = Inr (?h1[p := Some blk'])"
      and len: "length blk' = length ?b1"
      and pt: "\<forall>j < length ?b1. blk' ! j = (if unat (i + 1) \<le> j \<and> j < unat n then sblk ! j else ?b1 ! j)"
      by auto
    have "copy_loop d s i n h = Inr (h[p := Some blk'])"
      using True ld st r by (subst copy_loop.simps) simp
    moreover have "length blk' = length blk" using len by simp
    moreover have "\<forall>j < length blk. blk' ! j = (if unat i \<le> j \<and> j < unat n then sblk ! j else blk ! j)"
      using pt inb lt w by (auto simp: inc_unat[OF True] nth_list_update)
    ultimately show ?thesis by blast
  qed
qed

subsection \<open>Well-formedness, by object identity\<close>

lemma lookup_snoc_Some:
  "lookup (os @ [x]) i = Some b \<longleftrightarrow> lookup os i = Some b \<or> (i = length os \<and> x = Some b)"
  by (auto simp: lookup_def nth_append)

lemma lookup_length: "lookup os (length os) = None"
  by (simp add: lookup_def)

lemma pointers_snoc:
  "pointers (os @ [x]) =
     pointers os @ (case x of None \<Rightarrow> [] | Some b \<Rightarrow> (case m_data b of None \<Rightarrow> [] | Some p \<Rightarrow> [p]))"
  by (simp add: pointers_def)

lemma set_pointers:
  "set (pointers os) = {p. \<exists>i b. lookup os i = Some b \<and> m_data b = Some p}"
proof (induction os rule: rev_induct)
  case Nil
  show ?case by (simp add: pointers_def lookup_def)
next
  case (snoc x os)
  have "set (pointers (os @ [x])) =
        set (pointers os) \<union> {p. \<exists>b. x = Some b \<and> m_data b = Some p}"
    by (auto simp: pointers_snoc split: option.splits)
  also have "\<dots> = {p. \<exists>i b. lookup (os @ [x]) i = Some b \<and> m_data b = Some p}"
    unfolding snoc.IH lookup_snoc_Some by blast
  finally show ?case .
qed

lemma distinct_pointers:
  "distinct (pointers os) \<longleftrightarrow>
     (\<forall>i j b c p. lookup os i = Some b \<and> lookup os j = Some c \<and> m_data b = Some p \<and> m_data c = Some p
        \<longrightarrow> i = j)"
proof (induction os rule: rev_induct)
  case Nil
  show ?case by (simp add: pointers_def lookup_def)
next
  case (snoc x os)
  let ?U = "\<lambda>os. \<forall>i j b c p. lookup os i = Some b \<and> lookup os j = Some c \<and>
               m_data b = Some p \<and> m_data c = Some p \<longrightarrow> i = j"
  have new: "lookup os i \<noteq> Some b \<or> i \<noteq> length os" for i b
    using lookup_length [of os] by auto
  have d: "distinct (pointers (os @ [x])) \<longleftrightarrow>
           ?U os \<and> (\<forall>b p. x = Some b \<and> m_data b = Some p \<longrightarrow> p \<notin> set (pointers os))"
    using snoc.IH by (auto simp: pointers_snoc split: option.splits)
  have "?U os \<and> (\<forall>b p. x = Some b \<and> m_data b = Some p \<longrightarrow> p \<notin> set (pointers os))
        \<longleftrightarrow> ?U (os @ [x])"
  proof
    assume h: "?U os \<and> (\<forall>b p. x = Some b \<and> m_data b = Some p \<longrightarrow> p \<notin> set (pointers os))"
    then have u: "?U os"
      and f: "\<And>b p i c. x = Some b \<Longrightarrow> m_data b = Some p \<Longrightarrow> lookup os i = Some c \<Longrightarrow> m_data c \<noteq> Some p"
      unfolding set_pointers by blast+
    show "?U (os @ [x])"
    proof (intro allI impI)
      fix i j b c p
      assume a: "lookup (os @ [x]) i = Some b \<and> lookup (os @ [x]) j = Some c \<and>
                 m_data b = Some p \<and> m_data c = Some p"
      then consider "lookup os i = Some b" "lookup os j = Some c"
        | "lookup os i = Some b" "j = length os" "x = Some c"
        | "i = length os" "x = Some b" "lookup os j = Some c"
        | "i = length os" "j = length os"
        unfolding lookup_snoc_Some by blast
      then show "i = j"
      proof cases
        case 1 with u a show ?thesis by blast
      next
        case 2 with f a show ?thesis by blast
      next
        case 3 with f a show ?thesis by blast
      next
        case 4 then show ?thesis by simp
      qed
    qed
  next
    assume u: "?U (os @ [x])"
    have "?U os"
    proof (intro allI impI)
      fix i j b c p
      assume "lookup os i = Some b \<and> lookup os j = Some c \<and> m_data b = Some p \<and> m_data c = Some p"
      then have "lookup (os @ [x]) i = Some b \<and> lookup (os @ [x]) j = Some c \<and>
                 m_data b = Some p \<and> m_data c = Some p"
        unfolding lookup_snoc_Some by simp
      with u show "i = j" by blast
    qed
    moreover have "p \<notin> set (pointers os)" if "x = Some b" "m_data b = Some p" for b p
    proof
      assume "p \<in> set (pointers os)"
      then obtain i c where ic: "lookup os i = Some c" "m_data c = Some p"
        unfolding set_pointers by blast
      then have "lookup (os @ [x]) i = Some c \<and> lookup (os @ [x]) (length os) = Some b \<and>
                 m_data c = Some p \<and> m_data b = Some p"
        unfolding lookup_snoc_Some using that by simp
      with u have "i = length os" by blast
      with ic new show False by blast
    qed
    ultimately show "?U os \<and> (\<forall>b p. x = Some b \<and> m_data b = Some p \<longrightarrow> p \<notin> set (pointers os))"
      by blast
  qed
  with d show ?case by simp
qed

lemma consistent_iff:
  "consistent os h \<longleftrightarrow>
     (\<forall>i b. lookup os i = Some b \<longrightarrow> owns h b) \<and>
     (\<forall>i j b c p. lookup os i = Some b \<and> lookup os j = Some c \<and> m_data b = Some p \<and> m_data c = Some p
        \<longrightarrow> i = j)"
proof -
  have "list_all (\<lambda>x. case x of None \<Rightarrow> True | Some b \<Rightarrow> owns h b) os \<longleftrightarrow>
        (\<forall>i b. lookup os i = Some b \<longrightarrow> owns h b)"
    by (auto simp: list_all_length lookup_def split: option.splits)
  then show ?thesis unfolding consistent_def distinct_pointers by simp
qed


lemma owns_frame:
  "owns h b \<Longrightarrow> (\<And>p. m_data b = Some p \<Longrightarrow> lookup h' p = lookup h p) \<Longrightarrow> owns h' b"
  by (auto simp: owns_def split: option.splits)

lemma owns_null [simp]: "owns h \<lparr>m_data = None, m_size = 0\<rparr>"
  by (simp add: owns_def)

lemma allocatable_0 [simp]: "allocatable 0"
  by (simp add: allocatable_def max_array_bytes_def)

lemma allocatable_iff: "allocatable n \<longleftrightarrow> unat n < 2 ^ 61"
  unfolding allocatable_def sizeof_int_def max_array_bytes_def by simp arith

lemma allocatable_word: "allocatable n \<longleftrightarrow> n < 2 ^ 61"
  unfolding allocatable_iff word_less_nat_alt by simp

lemma owns_allocatable: "owns h b \<Longrightarrow> allocatable (m_size b)"
  by (auto simp: owns_def split: option.splits)

lemma owns_live: "owns h b \<Longrightarrow> m_data b = Some p \<Longrightarrow> p < length h"
  by (auto simp: owns_def dest: lookup_Some_less split: option.splits)

lemma consistentI:
  "(\<And>i b. lookup os i = Some b \<Longrightarrow> owns h b) \<Longrightarrow>
   (\<And>i j b c p. lookup os i = Some b \<Longrightarrow> lookup os j = Some c \<Longrightarrow>
       m_data b = Some p \<Longrightarrow> m_data c = Some p \<Longrightarrow> i = j) \<Longrightarrow> consistent os h"
  unfolding consistent_iff by blast

lemma consistent_owns: "consistent os h \<Longrightarrow> lookup os i = Some b \<Longrightarrow> owns h b"
  unfolding consistent_iff by blast

lemma consistent_uniq:
  "consistent os h \<Longrightarrow> lookup os i = Some b \<Longrightarrow> lookup os j = Some c \<Longrightarrow>
   m_data b = Some p \<Longrightarrow> m_data c = Some p \<Longrightarrow> i = j"
  unfolding consistent_iff by blast

lemma lookup_update_cases:
  "lookup (os[k := x]) i = Some b \<Longrightarrow> (i = k \<and> x = Some b) \<or> (i \<noteq> k \<and> lookup os i = Some b)"
  by (cases "i = k") (auto simp: lookup_def split: if_splits)

lemma lookup_snoc_cases:
  "lookup (os @ [x]) i = Some b \<Longrightarrow> (i = length os \<and> x = Some b) \<or> (i < length os \<and> lookup os i = Some b)"
  by (auto simp: lookup_def nth_append split: if_splits)

subsection \<open>The steps that change who owns what\<close>

text \<open>
  A new empty object, the end of a lifetime, giving up a block, taking a new block,
  taking over the block of another object: each keeps the memory well formed.
\<close>

lemma consistent_append_null:
  assumes "consistent os h"
  shows "consistent (os @ [Some \<lparr>m_data = None, m_size = 0\<rparr>]) h"
proof (rule consistentI)
  fix i b assume "lookup (os @ [Some \<lparr>m_data = None, m_size = 0\<rparr>]) i = Some b"
  then show "owns h b" using consistent_owns [OF assms] by (auto dest!: lookup_snoc_cases)
next
  fix i j b c p
  assume "lookup (os @ [Some \<lparr>m_data = None, m_size = 0\<rparr>]) i = Some b"
    "lookup (os @ [Some \<lparr>m_data = None, m_size = 0\<rparr>]) j = Some c"
    "m_data b = Some p" "m_data c = Some p"
  then show "i = j" using consistent_uniq [OF assms] by (auto dest!: lookup_snoc_cases)
qed


lemma consistent_end:
  assumes "consistent os h"
  shows "consistent (os[this := None]) h"
proof (rule consistentI)
  fix i b assume "lookup (os[this := None]) i = Some b"
  then show "owns h b" using consistent_owns [OF assms] by (auto dest!: lookup_update_cases)
next
  fix i j b c p
  assume "lookup (os[this := None]) i = Some b" "lookup (os[this := None]) j = Some c"
    "m_data b = Some p" "m_data c = Some p"
  then show "i = j" using consistent_uniq [OF assms] by (auto dest!: lookup_update_cases)
qed

lemma consistent_release:
  assumes "consistent os h" "lookup os this = Some t"
  shows "\<exists>h0. delete_array h (m_data t) = Inr h0 \<and>
              h0 = (case m_data t of None \<Rightarrow> h | Some p \<Rightarrow> h[p := None]) \<and>
              consistent (os[this := Some \<lparr>m_data = None, m_size = 0\<rparr>]) h0"
proof -
  let ?os = "os[this := Some \<lparr>m_data = None, m_size = 0\<rparr>]"
  have split: "(i = this \<and> b = \<lparr>m_data = None, m_size = 0\<rparr>) \<or> (i \<noteq> this \<and> lookup os i = Some b)"
    if "lookup ?os i = Some b" for i b
    using lookup_update_cases [OF that] by auto
  have uniq': "i = j" if a: "lookup ?os i = Some b" "lookup ?os j = Some c"
    "m_data b = Some p" "m_data c = Some p" for i j b c p
    using split [OF a(1)] split [OF a(2)] a(3,4) consistent_uniq [OF assms(1)]
    by (metis buffer.select_convs(1) option.distinct(1))
  show ?thesis
  proof (cases "m_data t")
    case None
    have "consistent ?os h"
    proof (rule consistentI)
      fix i b assume "lookup ?os i = Some b"
      from split [OF this] show "owns h b" using consistent_owns [OF assms(1)] by auto
    qed (rule uniq')
    with None show ?thesis by (simp add: delete_array_def)
  next
    case (Some p)
    from consistent_owns [OF assms] Some obtain blk where blk: "lookup h p = Some blk"
      by (auto simp: owns_def split: option.splits)
    have "consistent ?os (h[p := None])"
    proof (rule consistentI)
      fix i b assume "lookup ?os i = Some b"
      from split [OF this] consider "b = \<lparr>m_data = None, m_size = 0\<rparr>" | "i \<noteq> this" "lookup os i = Some b"
        by auto
      then show "owns (h[p := None]) b"
      proof cases
        case 1 then show ?thesis by simp
      next
        case 2
        have "m_data b \<noteq> Some p"
        proof
          assume "m_data b = Some p"
          from consistent_uniq [OF assms(1) 2(2) assms(2) this Some] 2(1) show False by simp
        qed
        then have "lookup (h[p := None]) q = lookup h q" if "m_data b = Some q" for q
          using that by (auto simp: lookup_update)
        then show ?thesis
          using owns_frame [OF consistent_owns [OF assms(1) 2(2)]] by blast
      qed
    qed (rule uniq')
    with Some blk show ?thesis by (simp add: delete_array_def)
  qed
qed

lemma consistent_acquire:
  assumes "consistent os h" "lookup os this = Some t" "m_data t = None"
    "length blk = unat n" "list_all (\<lambda>c. c \<noteq> None) blk" "allocatable n"
  shows "consistent (os[this := Some \<lparr>m_data = Some (length h), m_size = n\<rparr>]) (h @ [Some blk])"
proof (rule consistentI)
  let ?os = "os[this := Some \<lparr>m_data = Some (length h), m_size = n\<rparr>]"
  have old: "q < length h" if "lookup os k = Some d" "m_data d = Some q" for k d q
    using owns_live [OF consistent_owns [OF assms(1) that(1)] that(2)] .
  {
    fix i b assume "lookup ?os i = Some b"
    then consider "b = \<lparr>m_data = Some (length h), m_size = n\<rparr>" | "lookup os i = Some b"
      by (auto dest!: lookup_update_cases)
    then show "owns (h @ [Some blk]) b"
    proof cases
      case 1 with assms(4,5,6) show ?thesis by (simp add: owns_def lookup_append)
    next
      case 2
      note o = consistent_owns [OF assms(1) 2]
      show ?thesis by (rule owns_frame [OF o]) (auto simp: lookup_append dest: owns_live [OF o])
    qed
  }
  {
    fix i j b c p
    assume a: "lookup ?os i = Some b" "lookup ?os j = Some c" "m_data b = Some p" "m_data c = Some p"
    from a(1) consider "i = this" "b = \<lparr>m_data = Some (length h), m_size = n\<rparr>"
      | "i \<noteq> this" "lookup os i = Some b"
      by (auto dest!: lookup_update_cases)
    moreover from a(2) consider "j = this" "c = \<lparr>m_data = Some (length h), m_size = n\<rparr>"
      | "j \<noteq> this" "lookup os j = Some c"
      by (auto dest!: lookup_update_cases)
    ultimately show "i = j"
      using a(3,4) old consistent_uniq [OF assms(1)] by (metis buffer.select_convs(1) less_irrefl option.inject)
  }
qed

lemma consistent_transfer:
  assumes "consistent os h" "lookup os this = Some t" "m_data t = None" "lookup os other = Some o1"
    "this \<noteq> other"
  shows "consistent (os[this := Some \<lparr>m_data = m_data o1, m_size = m_size o1\<rparr>,
                other := Some \<lparr>m_data = None, m_size = 0\<rparr>]) h"
proof (rule consistentI)
  let ?os = "os[this := Some \<lparr>m_data = m_data o1, m_size = m_size o1\<rparr>,
                other := Some \<lparr>m_data = None, m_size = 0\<rparr>]"
  have split: "(i = other \<and> b = \<lparr>m_data = None, m_size = 0\<rparr>) \<or>
               (i = this \<and> b = o1) \<or> (i \<noteq> this \<and> i \<noteq> other \<and> lookup os i = Some b)"
    if "lookup ?os i = Some b" for i b
    using that by (auto dest!: lookup_update_cases)
  {
    fix i b assume "lookup ?os i = Some b"
    then show "owns h b"
      using split [of i b] consistent_owns [OF assms(1)] assms(4) by auto
  }
  {
    fix i j b c p
    assume a: "lookup ?os i = Some b" "lookup ?os j = Some c" "m_data b = Some p" "m_data c = Some p"
    show "i = j"
      using split [OF a(1)] split [OF a(2)] a(3,4) consistent_uniq [OF assms(1)] assms(4)
      by (metis buffer.select_convs(1) option.distinct(1))
  }
qed

subsection \<open>The loops, over a whole block\<close>

lemma fill_loop_all:
  assumes "lookup h p = Some blk" "length blk = unat n"
  shows "fill_loop (Some p) 0 n v h = Inr (h[p := Some (replicate (unat n) (Some v))])"
proof -
  from fill_loop_spec [OF assms(1), of n "Some p" 0 v] assms(2)
  obtain blk' where r: "fill_loop (Some p) 0 n v h = Inr (h[p := Some blk'])"
    and len: "length blk' = length blk"
    and pt: "\<forall>j < length blk. blk' ! j = (if unat (0 :: size_t) \<le> j \<and> j < unat n then Some v else blk ! j)"
    by auto
  have "blk' = replicate (unat n) (Some v)"
    using len pt assms(2) by (intro nth_equalityI) auto
  with r show ?thesis by simp
qed

lemma copy_loop_all:
  assumes "lookup h q = Some sblk" "list_all (\<lambda>c. c \<noteq> None) sblk" "length sblk = unat n"
    "lookup h p = Some blk" "length blk = unat n" "p \<noteq> q"
  shows "copy_loop (Some p) (Some q) 0 n h = Inr (h[p := Some sblk])"
proof -
  from copy_loop_spec [OF assms(1,2) _ assms(4) _ assms(6), of n "Some p" "Some q" 0] assms(3,5)
  obtain blk' where r: "copy_loop (Some p) (Some q) 0 n h = Inr (h[p := Some blk'])"
    and len: "length blk' = length blk"
    and pt: "\<forall>j < length blk. blk' ! j = (if unat (0 :: size_t) \<le> j \<and> j < unat n then sblk ! j else blk ! j)"
    by auto
  have "blk' = sblk"
    using len pt assms(3,5) by (intro nth_equalityI) auto
  with r show ?thesis by simp
qed

lemma copy_into_new:
  assumes "owns h b"
  shows "\<exists>blk. copy_loop (Some (length h)) (m_data b) 0 (m_size b) (h @ [Some (replicate (unat (m_size b)) None)])
           = Inr (h @ [Some blk]) \<and> length blk = unat (m_size b) \<and> list_all (\<lambda>c. c \<noteq> None) blk \<and>
           blk = (case m_data b of None \<Rightarrow> [] | Some q \<Rightarrow> the (lookup h q))"
proof (cases "m_data b")
  case None
  with assms have "m_size b = 0" by (simp add: owns_def)
  with None show ?thesis by simp
next
  case (Some q)
  with assms obtain sblk where s: "lookup h q = Some sblk" "length sblk = unat (m_size b)"
    "list_all (\<lambda>c. c \<noteq> None) sblk"
    by (auto simp: owns_def split: option.splits)
  let ?h1 = "h @ [Some (replicate (unat (m_size b)) None)]"
  have q: "q < length h" using s(1) by (rule lookup_Some_less)
  have "copy_loop (Some (length h)) (Some q) 0 (m_size b) ?h1 = Inr (?h1[length h := Some sblk])"
    using s q
    by (intro copy_loop_all [where blk = "replicate (unat (m_size b)) None" and sblk = sblk])
       (auto simp: lookup_append)
  with Some s show ?thesis by simp
qed

subsection \<open>What each buffer operation returns\<close>

lemma consistent_construct:
  assumes "consistent os h" "length blk = unat n" "list_all (\<lambda>c. c \<noteq> None) blk"
    "allocatable n"
  shows "consistent (os @ [Some \<lparr>m_data = Some (length h), m_size = n\<rparr>]) (h @ [Some blk])"
proof -
  let ?null = "\<lparr>m_data = None, m_size = 0\<rparr>"
  have "consistent ((os @ [Some ?null])[length os := Some \<lparr>m_data = Some (length h), m_size = n\<rparr>]) (h @ [Some blk])"
    using assms(2,3,4)
    by (intro consistent_acquire [OF consistent_append_null [OF assms(1)], where t = ?null])
       (simp_all add: lookup_append)
  then show ?thesis by simp
qed

lemma consistent_move_construct:
  assumes "consistent os h" "lookup os other = Some o1"
  shows "consistent (os[other := Some \<lparr>m_data = None, m_size = 0\<rparr>] @ [Some \<lparr>m_data = m_data o1, m_size = m_size o1\<rparr>]) h"
proof -
  let ?null = "\<lparr>m_data = None, m_size = 0\<rparr>"
  have lt: "other < length os" using assms(2) by (rule lookup_Some_less)
  have "consistent ((os @ [Some ?null])[length os := Some \<lparr>m_data = m_data o1, m_size = m_size o1\<rparr>,
             other := Some ?null]) h"
    using lt assms(2)
    by (intro consistent_transfer [OF consistent_append_null [OF assms(1)], where t = ?null])
       (simp_all add: lookup_append)
  then show ?thesis using lt by (simp add: list_update_append1)
qed


lemma LargeBuffer_copy_ctor_eq:
  assumes "lookup (objs st) other = Some o1" "owns (heap st) o1"
  shows "\<exists>blk. contents st other = Some blk \<and> length blk = unat (m_size o1) \<and>
           list_all (\<lambda>c. c \<noteq> None) blk \<and>
           LargeBuffer_copy_ctor other st =
             Inr (length (objs st),
                  st\<lparr>objs := objs st @ [Some \<lparr>m_data = Some (length (heap st)), m_size = m_size o1\<rparr>],
                     heap := heap st @ [Some blk],
                     copy_count := copy_count st + 1\<rparr>)"
proof -
  from copy_into_new [OF assms(2)] obtain blk where
    c: "copy_loop (Some (length (heap st))) (m_data o1) 0 (m_size o1)
          (heap st @ [Some (replicate (unat (m_size o1)) None)]) = Inr (heap st @ [Some blk])"
    and l: "length blk = unat (m_size o1)" and i: "list_all (\<lambda>c. c \<noteq> None) blk"
    and e: "blk = (case m_data o1 of None \<Rightarrow> [] | Some q \<Rightarrow> the (lookup (heap st) q))"
    by blast
  have "contents st other = Some blk"
    using assms e by (auto simp: contents_def owns_def split: option.splits)
  moreover have "LargeBuffer_copy_ctor other st =
             Inr (length (objs st),
                  st\<lparr>objs := objs st @ [Some \<lparr>m_data = Some (length (heap st)), m_size = m_size o1\<rparr>],
                     heap := heap st @ [Some blk],
                     copy_count := copy_count st + 1\<rparr>)"
    using assms(1) c owns_allocatable [OF assms(2)]
    by (simp add: LargeBuffer_copy_ctor_def new_array_def del: copy_loop.simps)
  ultimately show ?thesis using l i by blast
qed

lemma LargeBuffer_fill_eq:
  assumes "lookup (objs st) this = Some t" "owns (heap st) t"
  shows "LargeBuffer_fill this v st =
           Inr (case m_data t of None \<Rightarrow> st
                | Some p \<Rightarrow> st\<lparr>heap := (heap st)[p := Some (replicate (unat (m_size t)) (Some v))]\<rparr>)"
proof (cases "m_data t")
  case None
  with assms(2) have "m_size t = 0" by (simp add: owns_def)
  with None assms(1) show ?thesis by (simp add: LargeBuffer_fill_def)
next
  case (Some p)
  with assms(2) obtain blk where "lookup (heap st) p = Some blk" "length blk = unat (m_size t)"
    by (auto simp: owns_def split: option.splits)
  from fill_loop_all [OF this, of v] Some assms(1) show ?thesis
    by (simp add: LargeBuffer_fill_def del: fill_loop.simps)
qed

lemma consistent_reassign:
  assumes "consistent os h" "lookup os this = Some t" "lookup os other = Some o1" "this \<noteq> other"
  shows "\<exists>h0 blk. delete_array h (m_data t) = Inr h0 \<and>
           h0 = (case m_data t of None \<Rightarrow> h | Some p \<Rightarrow> h[p := None]) \<and>
           owns h0 o1 \<and>
           (\<forall>q. m_data o1 = Some q \<longrightarrow> lookup h0 q = lookup h q) \<and>
           copy_loop (Some (length h0)) (m_data o1) 0 (m_size o1)
             (h0 @ [Some (replicate (unat (m_size o1)) None)]) = Inr (h0 @ [Some blk]) \<and>
           length blk = unat (m_size o1) \<and> list_all (\<lambda>c. c \<noteq> None) blk \<and>
           blk = (case m_data o1 of None \<Rightarrow> [] | Some q \<Rightarrow> the (lookup h q)) \<and>
           consistent (os[this := Some \<lparr>m_data = None, m_size = 0\<rparr>]) h0 \<and>
           consistent (os[this := Some \<lparr>m_data = Some (length h0), m_size = m_size o1\<rparr>]) (h0 @ [Some blk])"
proof -
  let ?null = "\<lparr>m_data = None, m_size = 0\<rparr>"
  from consistent_release [OF assms(1,2)] obtain h0 where
    d: "delete_array h (m_data t) = Inr h0"
    and h0: "h0 = (case m_data t of None \<Rightarrow> h | Some p \<Rightarrow> h[p := None])"
    and w0: "consistent (os[this := Some ?null]) h0"
    by blast
  have lt: "this < length os" using assms(2) by (rule lookup_Some_less)
  have lo: "lookup (os[this := Some ?null]) other = Some o1"
    using assms(3,4) by (simp add: lookup_update)
  have lthis: "lookup (os[this := Some ?null]) this = Some ?null"
    using lt by (simp add: lookup_update)
  have o0: "owns h0 o1" using w0 lo by (rule consistent_owns)
  have same: "lookup h0 q = lookup h q" if "m_data o1 = Some q" for q
  proof (cases "m_data t")
    case None with h0 show ?thesis by simp
  next
    case (Some p)
    have "p \<noteq> q" using consistent_uniq [OF assms(1,2,3) Some] that assms(4) by auto
    with Some h0 show ?thesis by (simp add: lookup_update)
  qed
  from copy_into_new [OF o0] obtain blk where
    c: "copy_loop (Some (length h0)) (m_data o1) 0 (m_size o1)
          (h0 @ [Some (replicate (unat (m_size o1)) None)]) = Inr (h0 @ [Some blk])"
    and l: "length blk = unat (m_size o1)" and i: "list_all (\<lambda>c. c \<noteq> None) blk"
    and e: "blk = (case m_data o1 of None \<Rightarrow> [] | Some q \<Rightarrow> the (lookup h0 q))"
    by blast
  have e': "blk = (case m_data o1 of None \<Rightarrow> [] | Some q \<Rightarrow> the (lookup h q))"
    using e same by (cases "m_data o1") simp_all
  have "consistent (os[this := Some ?null, this := Some \<lparr>m_data = Some (length h0), m_size = m_size o1\<rparr>])
          (h0 @ [Some blk])"
    using l i owns_allocatable [OF o0] by (intro consistent_acquire [OF w0 lthis]) simp_all
  then have w1: "consistent (os[this := Some \<lparr>m_data = Some (length h0), m_size = m_size o1\<rparr>]) (h0 @ [Some blk])"
    by simp
  show ?thesis using d h0 o0 same c l i e' w0 w1 by blast
qed

lemma consistent_move_assign:
  assumes "consistent os h" "lookup os this = Some t" "lookup os other = Some o1" "this \<noteq> other"
  shows "\<exists>h0. delete_array h (m_data t) = Inr h0 \<and>
           h0 = (case m_data t of None \<Rightarrow> h | Some p \<Rightarrow> h[p := None]) \<and>
           (\<forall>q. m_data o1 = Some q \<longrightarrow> lookup h0 q = lookup h q) \<and>
           consistent (os[this := Some \<lparr>m_data = m_data o1, m_size = m_size o1\<rparr>,
                  other := Some \<lparr>m_data = None, m_size = 0\<rparr>]) h0"
proof -
  let ?null = "\<lparr>m_data = None, m_size = 0\<rparr>"
  from consistent_release [OF assms(1,2)] obtain h0 where
    d: "delete_array h (m_data t) = Inr h0"
    and h0: "h0 = (case m_data t of None \<Rightarrow> h | Some p \<Rightarrow> h[p := None])"
    and w0: "consistent (os[this := Some ?null]) h0"
    by blast
  have lt: "this < length os" using assms(2) by (rule lookup_Some_less)
  have lo: "lookup (os[this := Some ?null]) other = Some o1"
    using assms(3,4) by (simp add: lookup_update)
  have lthis: "lookup (os[this := Some ?null]) this = Some ?null"
    using lt by (simp add: lookup_update)
  have same: "lookup h0 q = lookup h q" if "m_data o1 = Some q" for q
  proof (cases "m_data t")
    case None with h0 show ?thesis by simp
  next
    case (Some p)
    have "p \<noteq> q" using consistent_uniq [OF assms(1,2,3) Some] that assms(4) by auto
    with Some h0 show ?thesis by (simp add: lookup_update)
  qed
  have "consistent (os[this := Some ?null, this := Some \<lparr>m_data = m_data o1, m_size = m_size o1\<rparr>,
               other := Some ?null]) h0"
    using assms(4) by (intro consistent_transfer [OF w0 lthis _ lo]) simp_all
  then have "consistent (os[this := Some \<lparr>m_data = m_data o1, m_size = m_size o1\<rparr>, other := Some ?null]) h0"
    by simp
  with d h0 same show ?thesis by blast
qed

lemma consistent_destroy:
  assumes "consistent os h" "lookup os this = Some t"
  shows "\<exists>h0. delete_array h (m_data t) = Inr h0 \<and>
           h0 = (case m_data t of None \<Rightarrow> h | Some p \<Rightarrow> h[p := None]) \<and>
           consistent (os[this := None]) h0"
proof -
  from consistent_release [OF assms] obtain h0 where
    d: "delete_array h (m_data t) = Inr h0"
    and h0: "h0 = (case m_data t of None \<Rightarrow> h | Some p \<Rightarrow> h[p := None])"
    and w0: "consistent (os[this := Some \<lparr>m_data = None, m_size = 0\<rparr>]) h0"
    by blast
  from consistent_end [OF w0, of this] have "consistent (os[this := None]) h0" by simp
  with d h0 show ?thesis by blast
qed

lemma new_if_positive_eq:
  "allocatable n \<Longrightarrow> new_if_positive h n =
     Inr (if 0 < n then (Some (length h), h @ [Some (replicate (unat n) None)]) else (None, h))"
  by (simp add: new_if_positive_def new_array_def)


lemma owns_positive: "owns h b \<Longrightarrow> 0 < m_size b \<Longrightarrow> m_data b \<noteq> None"
  by (cases "m_data b") (auto simp: owns_def)

lemma ResourceManager_copy_ctor_eq:
  assumes "lookup (objs st) other = Some o1" "owns (heap st) o1"
  shows "\<exists>blk. contents st other = Some blk \<and> length blk = unat (m_size o1) \<and>
           list_all (\<lambda>c. c \<noteq> None) blk \<and>
           ResourceManager_copy_ctor other st =
             Inr (length (objs st),
                  if 0 < m_size o1
                  then st\<lparr>objs := objs st @ [Some \<lparr>m_data = Some (length (heap st)), m_size = m_size o1\<rparr>],
                          heap := heap st @ [Some blk],
                          copy_constructions := copy_constructions st + 1\<rparr>
                  else st\<lparr>objs := objs st @ [Some \<lparr>m_data = None, m_size = m_size o1\<rparr>],
                          copy_constructions := copy_constructions st + 1\<rparr>)"
proof -
  from copy_into_new [OF assms(2)] obtain blk where
    c: "copy_loop (Some (length (heap st))) (m_data o1) 0 (m_size o1)
          (heap st @ [Some (replicate (unat (m_size o1)) None)]) = Inr (heap st @ [Some blk])"
    and l: "length blk = unat (m_size o1)" and i: "list_all (\<lambda>c. c \<noteq> None) blk"
    and e: "blk = (case m_data o1 of None \<Rightarrow> [] | Some q \<Rightarrow> the (lookup (heap st) q))"
    by blast
  have ct: "contents st other = Some blk"
    using assms e by (auto simp: contents_def owns_def split: option.splits)
  have "ResourceManager_copy_ctor other st =
             Inr (length (objs st),
                  if 0 < m_size o1
                  then st\<lparr>objs := objs st @ [Some \<lparr>m_data = Some (length (heap st)), m_size = m_size o1\<rparr>],
                          heap := heap st @ [Some blk],
                          copy_constructions := copy_constructions st + 1\<rparr>
                  else st\<lparr>objs := objs st @ [Some \<lparr>m_data = None, m_size = m_size o1\<rparr>],
                          copy_constructions := copy_constructions st + 1\<rparr>)"
  proof (cases "0 < m_size o1")
    case True
    with assms(2) have "m_data o1 \<noteq> None" by (intro owns_positive)
    with True assms(1) c owns_allocatable [OF assms(2)] show ?thesis
      by (simp add: ResourceManager_copy_ctor_def new_if_positive_eq std_copy_def
            del: copy_loop.simps)
  next
    case False
    with assms(1) owns_allocatable [OF assms(2)] show ?thesis
      by (simp add: ResourceManager_copy_ctor_def new_if_positive_eq del: copy_loop.simps)
  qed
  with ct l i show ?thesis by blast
qed

lemma live_heapD:
  assumes "well_formed st" "lookup (objs st) this = Some t"
  shows "owns (heap st) t"
  using assms unfolding well_formed_def by (rule consistent_owns)

lemma LargeBuffer_copy_assign_eq:
  assumes "well_formed st" "lookup (objs st) this = Some t" "lookup (objs st) other = Some o1"
    "this \<noteq> other"
  shows "\<exists>h0 blk. h0 = (case m_data t of None \<Rightarrow> heap st | Some p \<Rightarrow> (heap st)[p := None]) \<and>
           contents st other = Some blk \<and> length blk = unat (m_size o1) \<and>
           (\<forall>q. m_data o1 = Some q \<longrightarrow> lookup h0 q = lookup (heap st) q) \<and>
           consistent ((objs st)[this := Some \<lparr>m_data = Some (length h0), m_size = m_size o1\<rparr>]) (h0 @ [Some blk]) \<and>
           LargeBuffer_copy_assign this other st =
             Inr (st\<lparr>objs := (objs st)[this := Some \<lparr>m_data = Some (length h0), m_size = m_size o1\<rparr>],
                     heap := h0 @ [Some blk],
                     copy_count := copy_count st + 1\<rparr>)"
proof -
  from consistent_reassign [OF assms(1) [unfolded well_formed_def] assms(2,3,4)]
  obtain h0 blk where
    d: "delete_array (heap st) (m_data t) = Inr h0"
    and h0: "h0 = (case m_data t of None \<Rightarrow> heap st | Some p \<Rightarrow> (heap st)[p := None])"
    and same: "\<forall>q. m_data o1 = Some q \<longrightarrow> lookup h0 q = lookup (heap st) q"
    and c: "copy_loop (Some (length h0)) (m_data o1) 0 (m_size o1)
             (h0 @ [Some (replicate (unat (m_size o1)) None)]) = Inr (h0 @ [Some blk])"
    and l: "length blk = unat (m_size o1)"
    and e: "blk = (case m_data o1 of None \<Rightarrow> [] | Some q \<Rightarrow> the (lookup (heap st) q))"
    and w: "consistent ((objs st)[this := Some \<lparr>m_data = Some (length h0), m_size = m_size o1\<rparr>]) (h0 @ [Some blk])"
    by blast
  have ct: "contents st other = Some blk"
    using assms(3) live_heapD [OF assms(1,3)] e
    by (auto simp: contents_def owns_def split: option.splits)
  have "LargeBuffer_copy_assign this other st =
             Inr (st\<lparr>objs := (objs st)[this := Some \<lparr>m_data = Some (length h0), m_size = m_size o1\<rparr>],
                     heap := h0 @ [Some blk],
                     copy_count := copy_count st + 1\<rparr>)"
    using assms(2,3,4) d c owns_allocatable [OF live_heapD [OF assms(1,3)]]
    by (simp add: LargeBuffer_copy_assign_def new_array_def del: copy_loop.simps)
  with h0 ct l same w show ?thesis by blast
qed

lemma ResourceManager_copy_assign_eq:
  assumes "well_formed st" "lookup (objs st) this = Some t" "lookup (objs st) other = Some o1"
    "this \<noteq> other"
  shows "\<exists>h0 blk. h0 = (case m_data t of None \<Rightarrow> heap st | Some p \<Rightarrow> (heap st)[p := None]) \<and>
           contents st other = Some blk \<and> length blk = unat (m_size o1) \<and>
           (\<forall>q. m_data o1 = Some q \<longrightarrow> lookup h0 q = lookup (heap st) q) \<and>
           ResourceManager_copy_assign this other st =
             Inr (if 0 < m_size o1
                  then st\<lparr>objs := (objs st)[this := Some \<lparr>m_data = Some (length h0), m_size = m_size o1\<rparr>],
                          heap := h0 @ [Some blk]\<rparr>
                  else st\<lparr>objs := (objs st)[this := Some \<lparr>m_data = None, m_size = m_size o1\<rparr>],
                          heap := h0\<rparr>) \<and>
           (if 0 < m_size o1
            then consistent ((objs st)[this := Some \<lparr>m_data = Some (length h0), m_size = m_size o1\<rparr>]) (h0 @ [Some blk])
            else consistent ((objs st)[this := Some \<lparr>m_data = None, m_size = m_size o1\<rparr>]) h0)"
proof -
  from consistent_reassign [OF assms(1) [unfolded well_formed_def] assms(2,3,4)]
  obtain h0 blk where
    d: "delete_array (heap st) (m_data t) = Inr h0"
    and h0: "h0 = (case m_data t of None \<Rightarrow> heap st | Some p \<Rightarrow> (heap st)[p := None])"
    and same: "\<forall>q. m_data o1 = Some q \<longrightarrow> lookup h0 q = lookup (heap st) q"
    and c: "copy_loop (Some (length h0)) (m_data o1) 0 (m_size o1)
             (h0 @ [Some (replicate (unat (m_size o1)) None)]) = Inr (h0 @ [Some blk])"
    and l: "length blk = unat (m_size o1)"
    and e: "blk = (case m_data o1 of None \<Rightarrow> [] | Some q \<Rightarrow> the (lookup (heap st) q))"
    and w0: "consistent ((objs st)[this := Some \<lparr>m_data = None, m_size = 0\<rparr>]) h0"
    and w: "consistent ((objs st)[this := Some \<lparr>m_data = Some (length h0), m_size = m_size o1\<rparr>]) (h0 @ [Some blk])"
    by blast
  note o = live_heapD [OF assms(1,3)]
  have ct: "contents st other = Some blk"
    using assms(3) o e by (auto simp: contents_def owns_def split: option.splits)
  show ?thesis
  proof (cases "0 < m_size o1")
    case True
    with o have "m_data o1 \<noteq> None" by (intro owns_positive)
    with True assms(2,3,4) d c owns_allocatable [OF o] have
      "ResourceManager_copy_assign this other st =
         Inr (st\<lparr>objs := (objs st)[this := Some \<lparr>m_data = Some (length h0), m_size = m_size o1\<rparr>],
                 heap := h0 @ [Some blk]\<rparr>)"
      by (simp add: ResourceManager_copy_assign_def new_if_positive_eq std_copy_def
            del: copy_loop.simps)
    with True h0 ct l same w show ?thesis by auto
  next
    case False
    then have z: "m_size o1 = 0" using word_neq_0_conv [of "m_size o1"] by blast
    with assms(2,3,4) d owns_allocatable [OF o] have
      "ResourceManager_copy_assign this other st =
         Inr (st\<lparr>objs := (objs st)[this := Some \<lparr>m_data = None, m_size = m_size o1\<rparr>],
                 heap := h0\<rparr>)"
      by (simp add: ResourceManager_copy_assign_def new_if_positive_eq del: copy_loop.simps)
    with False z h0 ct l same w0 show ?thesis by auto
  qed
qed

lemma LargeBuffer_move_assign_eq:
  assumes "well_formed st" "lookup (objs st) this = Some t" "lookup (objs st) other = Some o1"
    "this \<noteq> other"
  shows "\<exists>h0. h0 = (case m_data t of None \<Rightarrow> heap st | Some p \<Rightarrow> (heap st)[p := None]) \<and>
           (\<forall>q. m_data o1 = Some q \<longrightarrow> lookup h0 q = lookup (heap st) q) \<and>
           consistent ((objs st)[this := Some \<lparr>m_data = m_data o1, m_size = m_size o1\<rparr>,
                         other := Some \<lparr>m_data = None, m_size = 0\<rparr>]) h0 \<and>
           LargeBuffer_move_assign this other st =
             Inr (st\<lparr>objs := (objs st)[this := Some \<lparr>m_data = m_data o1, m_size = m_size o1\<rparr>,
                                      other := Some \<lparr>m_data = None, m_size = 0\<rparr>],
                     heap := h0,
                     move_count := move_count st + 1\<rparr>)"
proof -
  from consistent_move_assign [OF assms(1) [unfolded well_formed_def] assms(2,3,4)]
  obtain h0 where
    d: "delete_array (heap st) (m_data t) = Inr h0"
    and h0: "h0 = (case m_data t of None \<Rightarrow> heap st | Some p \<Rightarrow> (heap st)[p := None])"
    and same: "\<forall>q. m_data o1 = Some q \<longrightarrow> lookup h0 q = lookup (heap st) q"
    and w: "consistent ((objs st)[this := Some \<lparr>m_data = m_data o1, m_size = m_size o1\<rparr>,
                          other := Some \<lparr>m_data = None, m_size = 0\<rparr>]) h0"
    by blast
  have "LargeBuffer_move_assign this other st =
             Inr (st\<lparr>objs := (objs st)[this := Some \<lparr>m_data = m_data o1, m_size = m_size o1\<rparr>,
                                      other := Some \<lparr>m_data = None, m_size = 0\<rparr>],
                     heap := h0,
                     move_count := move_count st + 1\<rparr>)"
    using assms(2,3,4) d by (simp add: LargeBuffer_move_assign_def)
  with h0 same w show ?thesis by blast
qed

lemma ResourceManager_move_assign_eq:
  assumes "well_formed st" "lookup (objs st) this = Some t" "lookup (objs st) other = Some o1"
    "this \<noteq> other"
  shows "\<exists>h0. h0 = (case m_data t of None \<Rightarrow> heap st | Some p \<Rightarrow> (heap st)[p := None]) \<and>
           (\<forall>q. m_data o1 = Some q \<longrightarrow> lookup h0 q = lookup (heap st) q) \<and>
           consistent ((objs st)[this := Some \<lparr>m_data = m_data o1, m_size = m_size o1\<rparr>,
                         other := Some \<lparr>m_data = None, m_size = 0\<rparr>]) h0 \<and>
           ResourceManager_move_assign this other st =
             Inr (st\<lparr>objs := (objs st)[this := Some \<lparr>m_data = m_data o1, m_size = m_size o1\<rparr>,
                                      other := Some \<lparr>m_data = None, m_size = 0\<rparr>],
                     heap := h0\<rparr>)"
proof -
  from consistent_move_assign [OF assms(1) [unfolded well_formed_def] assms(2,3,4)]
  obtain h0 where
    d: "delete_array (heap st) (m_data t) = Inr h0"
    and h0: "h0 = (case m_data t of None \<Rightarrow> heap st | Some p \<Rightarrow> (heap st)[p := None])"
    and same: "\<forall>q. m_data o1 = Some q \<longrightarrow> lookup h0 q = lookup (heap st) q"
    and w: "consistent ((objs st)[this := Some \<lparr>m_data = m_data o1, m_size = m_size o1\<rparr>,
                          other := Some \<lparr>m_data = None, m_size = 0\<rparr>]) h0"
    by blast
  have "ResourceManager_move_assign this other st =
             Inr (st\<lparr>objs := (objs st)[this := Some \<lparr>m_data = m_data o1, m_size = m_size o1\<rparr>,
                                      other := Some \<lparr>m_data = None, m_size = 0\<rparr>],
                     heap := h0\<rparr>)"
    using assms(2,3,4) d by (simp add: ResourceManager_move_assign_def)
  with h0 same w show ?thesis by blast
qed

lemma LargeBuffer_dtor_eq:
  assumes "well_formed st" "lookup (objs st) this = Some t"
  shows "\<exists>h0. h0 = (case m_data t of None \<Rightarrow> heap st | Some p \<Rightarrow> (heap st)[p := None]) \<and>
           consistent ((objs st)[this := None]) h0 \<and>
           LargeBuffer_dtor this st = Inr (st\<lparr>objs := (objs st)[this := None], heap := h0\<rparr>)"
proof -
  from consistent_destroy [OF assms(1) [unfolded well_formed_def] assms(2)]
  obtain h0 where
    d: "delete_array (heap st) (m_data t) = Inr h0"
    and h0: "h0 = (case m_data t of None \<Rightarrow> heap st | Some p \<Rightarrow> (heap st)[p := None])"
    and w: "consistent ((objs st)[this := None]) h0"
    by blast
  have "LargeBuffer_dtor this st = Inr (st\<lparr>objs := (objs st)[this := None], heap := h0\<rparr>)"
    using assms(2) d by (simp add: LargeBuffer_dtor_def)
  with h0 w show ?thesis by blast
qed

lemma ResourceManager_dtor_eq:
  assumes "well_formed st" "lookup (objs st) this = Some t"
  shows "\<exists>h0. h0 = (case m_data t of None \<Rightarrow> heap st | Some p \<Rightarrow> (heap st)[p := None]) \<and>
           consistent ((objs st)[this := None]) h0 \<and>
           ResourceManager_dtor this st =
             Inr (st\<lparr>objs := (objs st)[this := None], heap := h0,
                     destructions := destructions st + 1\<rparr>)"
proof -
  from consistent_destroy [OF assms(1) [unfolded well_formed_def] assms(2)]
  obtain h0 where
    d: "delete_array (heap st) (m_data t) = Inr h0"
    and h0: "h0 = (case m_data t of None \<Rightarrow> heap st | Some p \<Rightarrow> (heap st)[p := None])"
    and w: "consistent ((objs st)[this := None]) h0"
    by blast
  have "ResourceManager_dtor this st =
             Inr (st\<lparr>objs := (objs st)[this := None], heap := h0,
                     destructions := destructions st + 1\<rparr>)"
    using assms(2) d by (simp add: ResourceManager_dtor_def)
  with h0 w show ?thesis by blast
qed

lemma lookup_beyond: "\<not> k < length t \<Longrightarrow> lookup t k = None"
  by (simp add: lookup_def)








lemma LargeBuffer_copy_ctor_wf:
  assumes "well_formed st" "lookup (objs st) other = Some o1"
  shows "\<exists>b st'. LargeBuffer_copy_ctor other st = Inr (b, st') \<and> well_formed st' \<and>
           copy_count st' = copy_count st + 1 \<and> move_count st' = move_count st \<and>
           (\<forall>k. lookup (objs st) k \<noteq> None \<longrightarrow> lookup (objs st') k \<noteq> None)"
proof -
  from LargeBuffer_copy_ctor_eq [OF assms(2) live_heapD [OF assms]]
  obtain blk where l: "length blk = unat (m_size o1)" and i: "list_all (\<lambda>c. c \<noteq> None) blk"
    and r: "LargeBuffer_copy_ctor other st =
             Inr (length (objs st),
                  st\<lparr>objs := objs st @ [Some \<lparr>m_data = Some (length (heap st)), m_size = m_size o1\<rparr>],
                     heap := heap st @ [Some blk],
                     copy_count := copy_count st + 1\<rparr>)"
    by blast
  have "consistent (objs st @ [Some \<lparr>m_data = Some (length (heap st)), m_size = m_size o1\<rparr>])
          (heap st @ [Some blk])"
    using assms(1) l i owns_allocatable [OF live_heapD [OF assms]] unfolding well_formed_def
    by (intro consistent_construct)
  with r show ?thesis by (simp add: well_formed_def lookup_append lookup_beyond)
qed

lemma ResourceManager_copy_ctor_wf:
  assumes "well_formed st" "lookup (objs st) other = Some o1"
  shows "\<exists>b st'. ResourceManager_copy_ctor other st = Inr (b, st') \<and> well_formed st' \<and>
           default_constructions st' = default_constructions st \<and>
           copy_constructions st' = copy_constructions st + 1 \<and>
           move_constructions st' = move_constructions st \<and>
           destructions st' = destructions st \<and>
           (\<forall>k. lookup (objs st) k \<noteq> None \<longrightarrow> lookup (objs st') k \<noteq> None)"
proof -
  from ResourceManager_copy_ctor_eq [OF assms(2) live_heapD [OF assms]]
  obtain blk where l: "length blk = unat (m_size o1)" and i: "list_all (\<lambda>c. c \<noteq> None) blk"
    and r: "ResourceManager_copy_ctor other st =
             Inr (length (objs st),
                  if 0 < m_size o1
                  then st\<lparr>objs := objs st @ [Some \<lparr>m_data = Some (length (heap st)), m_size = m_size o1\<rparr>],
                          heap := heap st @ [Some blk],
                          copy_constructions := copy_constructions st + 1\<rparr>
                  else st\<lparr>objs := objs st @ [Some \<lparr>m_data = None, m_size = m_size o1\<rparr>],
                          copy_constructions := copy_constructions st + 1\<rparr>)"
    by blast
  show ?thesis
  proof (cases "0 < m_size o1")
    case True
    have "consistent (objs st @ [Some \<lparr>m_data = Some (length (heap st)), m_size = m_size o1\<rparr>])
            (heap st @ [Some blk])"
      using assms(1) l i owns_allocatable [OF live_heapD [OF assms]] unfolding well_formed_def
      by (intro consistent_construct)
    with r True show ?thesis by (simp add: well_formed_def lookup_append lookup_beyond)
  next
    case False
    then have "m_size o1 = 0" using word_neq_0_conv [of "m_size o1"] by blast
    moreover have "consistent (objs st @ [Some \<lparr>m_data = None, m_size = 0\<rparr>]) (heap st)"
      using assms(1) unfolding well_formed_def by (rule consistent_append_null)
    ultimately show ?thesis using r by (simp add: well_formed_def lookup_append lookup_beyond)
  qed
qed

lemma LargeBuffer_move_ctor_wf:
  assumes "well_formed st" "lookup (objs st) other = Some o1"
  shows "\<exists>b st'. LargeBuffer_move_ctor other st = Inr (b, st') \<and> well_formed st' \<and>
           copy_count st' = copy_count st \<and> move_count st' = move_count st + 1 \<and>
           (\<forall>k. lookup (objs st) k \<noteq> None \<longrightarrow> lookup (objs st') k \<noteq> None)"
proof -
  have "consistent ((objs st)[other := Some \<lparr>m_data = None, m_size = 0\<rparr>]
            @ [Some \<lparr>m_data = m_data o1, m_size = m_size o1\<rparr>]) (heap st)"
    using assms unfolding well_formed_def by (rule consistent_move_construct)
  with assms(2) show ?thesis
    using lookup_Some_less [OF assms(2)]
    by (simp add: LargeBuffer_move_ctor_def well_formed_def lookup_append lookup_update lookup_beyond)
qed

lemma ResourceManager_move_ctor_wf:
  assumes "well_formed st" "lookup (objs st) other = Some o1"
  shows "\<exists>b st'. ResourceManager_move_ctor other st = Inr (b, st') \<and> well_formed st' \<and>
           default_constructions st' = default_constructions st \<and>
           copy_constructions st' = copy_constructions st \<and>
           move_constructions st' = move_constructions st + 1 \<and>
           destructions st' = destructions st \<and>
           (\<forall>k. lookup (objs st) k \<noteq> None \<longrightarrow> lookup (objs st') k \<noteq> None)"
proof -
  have "consistent ((objs st)[other := Some \<lparr>m_data = None, m_size = 0\<rparr>]
            @ [Some \<lparr>m_data = m_data o1, m_size = m_size o1\<rparr>]) (heap st)"
    using assms unfolding well_formed_def by (rule consistent_move_construct)
  with assms(2) show ?thesis
    using lookup_Some_less [OF assms(2)]
    by (simp add: ResourceManager_move_ctor_def well_formed_def lookup_append lookup_update lookup_beyond)
qed

lemma LargeBuffer_duplicate:
  assumes "well_formed ls" "lookup (objs ls) a = Some y"
  shows "\<exists>b ls' blk. LargeBuffer_copy_ctor a ls = Inr (b, ls') \<and> b \<noteq> a \<and>
            contents ls a = Some blk \<and> contents ls' a = Some blk \<and> contents ls' b = Some blk \<and>
            length blk = unat (m_size y) \<and>
            LargeBuffer_size b ls' = Inr (m_size y) \<and> LargeBuffer_size a ls' = Inr (m_size y) \<and>
            (\<exists>ls2. LargeBuffer_fill b v ls' = Inr ls2 \<and> contents ls2 a = Some blk \<and>
                    contents ls2 b = Some (replicate (unat (m_size y)) (Some v))) \<and>
            (\<exists>ls3. LargeBuffer_fill a v ls' = Inr ls3 \<and> contents ls3 b = Some blk \<and>
                    contents ls3 a = Some (replicate (unat (m_size y)) (Some v)))"
proof -
  note oy = live_heapD [OF assms]
  have la: "a < length (objs ls)" using assms(2) by (rule lookup_Some_less)
  from LargeBuffer_copy_ctor_eq [OF assms(2) oy]
  obtain blk where ct: "contents ls a = Some blk" and l: "length blk = unat (m_size y)"
    and i: "list_all (\<lambda>c. c \<noteq> None) blk"
    and r: "LargeBuffer_copy_ctor a ls =
             Inr (length (objs ls),
                  ls\<lparr>objs := objs ls @ [Some \<lparr>m_data = Some (length (heap ls)), m_size = m_size y\<rparr>],
                     heap := heap ls @ [Some blk],
                     copy_count := copy_count ls + 1\<rparr>)"
    by blast
  let ?b = "length (objs ls)"
  let ?bb = "\<lparr>m_data = Some (length (heap ls)), m_size = m_size y\<rparr>"
  let ?ls' = "ls\<lparr>objs := objs ls @ [Some ?bb], heap := heap ls @ [Some blk],
                 copy_count := copy_count ls + 1\<rparr>"
  have lka: "lookup (objs ?ls') a = Some y" using assms(2) la by (simp add: lookup_append)
  have lkb: "lookup (objs ?ls') ?b = Some ?bb" by (simp add: lookup_append)
  have q: "q < length (heap ls)" if "m_data y = Some q" for q
    using owns_live [OF oy that] .
  have oa: "owns (heap ?ls') y"
    by (rule owns_frame [OF oy]) (auto simp: lookup_append dest: q)
  have ob: "owns (heap ?ls') ?bb"
    using l i owns_allocatable [OF oy] by (simp add: owns_def lookup_append)
  have cta: "contents ?ls' a = Some blk"
    using ct assms(2) lka q by (cases "m_data y") (auto simp: contents_def lookup_append)
  have ctb: "contents ?ls' ?b = Some blk" by (simp add: contents_def lookup_append)
  have f1: "\<exists>ls2. LargeBuffer_fill ?b v ?ls' = Inr ls2 \<and> contents ls2 a = Some blk \<and>
                    contents ls2 ?b = Some (replicate (unat (m_size y)) (Some v))"
    unfolding LargeBuffer_fill_eq [OF lkb ob]
    using cta la assms(2) q
    by (cases "m_data y") (auto simp: contents_def lookup_append lookup_update)
  have f2: "\<exists>ls3. LargeBuffer_fill a v ?ls' = Inr ls3 \<and> contents ls3 ?b = Some blk \<and>
                    contents ls3 a = Some (replicate (unat (m_size y)) (Some v))"
  proof (cases "m_data y")
    case None
    with oy have "m_size y = 0" by (simp add: owns_def)
    with None cta ctb l show ?thesis
      unfolding LargeBuffer_fill_eq [OF lka oa] by simp
  next
    case (Some p)
    with q have "p < length (heap ls)" by simp
    with Some la assms(2) show ?thesis
      unfolding LargeBuffer_fill_eq [OF lka oa]
      by (simp add: contents_def lookup_append lookup_update)
  qed
  have sz: "LargeBuffer_size ?b ?ls' = Inr (m_size y)" "LargeBuffer_size a ?ls' = Inr (m_size y)"
    using lka lkb by (simp_all add: LargeBuffer_size_def)
  have ne: "?b \<noteq> a" using la by simp
  show ?thesis
    unfolding r using ne ct cta ctb l sz f1 f2 by blast
qed

lemma ResourceManager_duplicate:
  assumes "well_formed rs" "lookup (objs rs) a = Some x"
  shows "\<exists>b rs' blk pb. ResourceManager_copy_ctor a rs = Inr (b, rs') \<and> b \<noteq> a \<and>
            contents rs a = Some blk \<and> contents rs' a = Some blk \<and> contents rs' b = Some blk \<and>
            length blk = unat (m_size x) \<and>
            ResourceManager_size b rs' = Inr (m_size x) \<and>
            ResourceManager_size a rs' = Inr (m_size x) \<and>
            ResourceManager_data a rs' = Inr (m_data x) \<and>
            ResourceManager_data b rs' = Inr pb \<and>
            (pb = None \<or> pb \<noteq> m_data x) \<and>
            (i < length blk \<longrightarrow>
               (\<exists>h'. store (heap rs') pb i v = Inr h' \<and>
                     contents (rs'\<lparr>heap := h'\<rparr>) a = Some blk \<and>
                     contents (rs'\<lparr>heap := h'\<rparr>) b = Some (blk[i := Some v])) \<and>
               (\<exists>h'. store (heap rs') (m_data x) i v = Inr h' \<and>
                     contents (rs'\<lparr>heap := h'\<rparr>) b = Some blk \<and>
                     contents (rs'\<lparr>heap := h'\<rparr>) a = Some (blk[i := Some v])))"
proof -
  note ox = live_heapD [OF assms]
  have la: "a < length (objs rs)" using assms(2) by (rule lookup_Some_less)
  from ResourceManager_copy_ctor_eq [OF assms(2) ox]
  obtain blk where ct: "contents rs a = Some blk" and l: "length blk = unat (m_size x)"
    and r: "ResourceManager_copy_ctor a rs =
             Inr (length (objs rs),
                  if 0 < m_size x
                  then rs\<lparr>objs := objs rs @ [Some \<lparr>m_data = Some (length (heap rs)), m_size = m_size x\<rparr>],
                          heap := heap rs @ [Some blk],
                          copy_constructions := copy_constructions rs + 1\<rparr>
                  else rs\<lparr>objs := objs rs @ [Some \<lparr>m_data = None, m_size = m_size x\<rparr>],
                          copy_constructions := copy_constructions rs + 1\<rparr>)"
    by blast
  let ?b = "length (objs rs)"
  have ne: "?b \<noteq> a" using la by simp
  have q: "q < length (heap rs)" if "m_data x = Some q" for q
    using owns_live [OF ox that] .
  show ?thesis
  proof (cases "0 < m_size x")
    case True
    let ?bb = "\<lparr>m_data = Some (length (heap rs)), m_size = m_size x\<rparr>"
    let ?rs' = "rs\<lparr>objs := objs rs @ [Some ?bb], heap := heap rs @ [Some blk],
                   copy_constructions := copy_constructions rs + 1\<rparr>"
    from owns_positive [OF ox True] obtain p where p: "m_data x = Some p" by blast
    note pl = q [OF p]
    have hp: "lookup (heap rs) p = Some blk"
      using ct assms(2) p by (simp add: contents_def)
    have r': "ResourceManager_copy_ctor a rs = Inr (?b, ?rs')" using r True by simp
    have lka: "lookup (objs ?rs') a = Some x" using assms(2) la by (simp add: lookup_append)
    have lkb: "lookup (objs ?rs') ?b = Some ?bb" by (simp add: lookup_append)
    have cta: "contents ?rs' a = Some blk"
      using lka p pl hp by (simp add: contents_def lookup_append)
    have ctb: "contents ?rs' ?b = Some blk" by (simp add: contents_def lookup_append)
    have acc: "ResourceManager_size ?b ?rs' = Inr (m_size x)"
      "ResourceManager_size a ?rs' = Inr (m_size x)"
      "ResourceManager_data a ?rs' = Inr (m_data x)"
      "ResourceManager_data ?b ?rs' = Inr (Some (length (heap rs)))"
      using lka lkb by (simp_all add: ResourceManager_size_def ResourceManager_data_def)
    have dist: "Some (length (heap rs)) \<noteq> m_data x" using p pl by simp
    have w1: "\<exists>h'. store (heap ?rs') (Some (length (heap rs))) i v = Inr h' \<and>
                     contents (?rs'\<lparr>heap := h'\<rparr>) a = Some blk \<and>
                     contents (?rs'\<lparr>heap := h'\<rparr>) ?b = Some (blk[i := Some v])"
      if "i < length blk"
      using that la assms(2) p pl hp
      by (simp add: store_def contents_def lookup_append lookup_update)
    have w2: "\<exists>h'. store (heap ?rs') (m_data x) i v = Inr h' \<and>
                     contents (?rs'\<lparr>heap := h'\<rparr>) ?b = Some blk \<and>
                     contents (?rs'\<lparr>heap := h'\<rparr>) a = Some (blk[i := Some v])"
      if "i < length blk"
      using that la assms(2) p pl hp
      by (simp add: store_def contents_def lookup_append lookup_update)
    show ?thesis
      unfolding r' using ne ct cta ctb l acc dist w1 w2 by blast
  next
    case False
    then have z: "m_size x = 0" using word_neq_0_conv [of "m_size x"] by blast
    let ?bb = "\<lparr>m_data = None, m_size = m_size x\<rparr>"
    let ?rs' = "rs\<lparr>objs := objs rs @ [Some ?bb],
                   copy_constructions := copy_constructions rs + 1\<rparr>"
    have r': "ResourceManager_copy_ctor a rs = Inr (?b, ?rs')" using r False by simp
    have e: "blk = []" using l z by simp
    have lka: "lookup (objs ?rs') a = Some x" using assms(2) la by (simp add: lookup_append)
    have lkb: "lookup (objs ?rs') ?b = Some ?bb" by (simp add: lookup_append)
    have cta: "contents ?rs' a = Some blk"
      using ct lka assms(2) by (simp add: contents_def split: option.splits)
    have ctb: "contents ?rs' ?b = Some blk" using e by (simp add: contents_def lookup_append)
    have acc: "ResourceManager_size ?b ?rs' = Inr (m_size x)"
      "ResourceManager_size a ?rs' = Inr (m_size x)"
      "ResourceManager_data a ?rs' = Inr (m_data x)"
      "ResourceManager_data ?b ?rs' = Inr None"
      using lka lkb by (simp_all add: ResourceManager_size_def ResourceManager_data_def)
    have ni: "\<not> i < length blk" using e by simp
    show ?thesis
      unfolding r' using ne ct cta ctb l acc ni by blast
  qed
qed

subsection \<open>Handles: one holder for each acquisition\<close>

lemma filter_update_count:
  "i < length xs \<Longrightarrow>
   length (filter P (xs[i := y])) + (if P (xs ! i) then 1 else 0) =
   length (filter P xs) + (if P y then 1 else 0)"
proof (induction xs arbitrary: i)
  case Nil
  then show ?case by simp
next
  case (Cons x xs)
  show ?case
  proof (cases i)
    case 0
    then show ?thesis by simp
  next
    case (Suc j)
    with Cons.prems have "j < length xs" by simp
    from Cons.IH [OF this] Suc show ?thesis by simp
  qed
qed

lemma exclusive_iff:
  "exclusive fl ts \<longleftrightarrow>
     length ts = length fl \<and> (\<forall>i < length ts. ts ! i < length ts) \<and>
     (\<forall>i j. i < length fl \<and> j < length fl \<and> fl ! i \<and> fl ! j \<and> ts ! i = ts ! j \<longrightarrow> i = j)"
  unfolding exclusive_def list_all_length by auto

lemma exclusiveI:
  assumes "length ts = length fl" "\<And>i. i < length fl \<Longrightarrow> ts ! i < length fl"
    "\<And>i j. i < length fl \<Longrightarrow> j < length fl \<Longrightarrow> fl ! i \<Longrightarrow> fl ! j \<Longrightarrow> ts ! i = ts ! j \<Longrightarrow> i = j"
  shows "exclusive fl ts"
  unfolding exclusive_iff using assms by auto

lemma exclusive_length: "exclusive fl ts \<Longrightarrow> length ts = length fl"
  unfolding exclusive_iff by blast

lemma exclusive_range: "exclusive fl ts \<Longrightarrow> i < length fl \<Longrightarrow> ts ! i < length fl"
  unfolding exclusive_iff by auto

lemma exclusive_uniq:
  "exclusive fl ts \<Longrightarrow> i < length fl \<Longrightarrow> j < length fl \<Longrightarrow> fl ! i \<Longrightarrow> fl ! j \<Longrightarrow>
   ts ! i = ts ! j \<Longrightarrow> i = j"
  unfolding exclusive_iff by blast

lemma exclusive_Nil: "exclusive [] []"
  by (simp add: exclusive_def)

lemma nth_clear: "i < length fl \<Longrightarrow> fl[x := False] ! i \<longleftrightarrow> i \<noteq> x \<and> fl ! i"
  by (cases "i = x") simp_all

lemma exclusive_clear:
  assumes "exclusive fl ts"
  shows "exclusive (fl[x := False]) ts"
proof (rule exclusiveI)
  show "length ts = length (fl[x := False])" using exclusive_length [OF assms] by simp
  fix i assume "i < length (fl[x := False])"
  then show "ts ! i < length (fl[x := False])" using exclusive_range [OF assms, of i] by simp
next
  fix i j
  assume a: "i < length (fl[x := False])" "j < length (fl[x := False])"
    "fl[x := False] ! i" "fl[x := False] ! j" "ts ! i = ts ! j"
  from a(1,2) have l: "i < length fl" "j < length fl" by simp_all
  from a(3,4) l have "fl ! i" "fl ! j" by (simp_all add: nth_clear)
  from exclusive_uniq [OF assms l this a(5)] show "i = j" .
qed

text \<open>An object whose flag is not set may take any origin.\<close>

lemma exclusive_retag:
  assumes "exclusive fl ts" "\<not> fl ! x" "t < length fl"
  shows "exclusive fl (ts[x := t])"
proof (rule exclusiveI)
  show "length (ts[x := t]) = length fl" using exclusive_length [OF assms(1)] by simp
  fix i assume i: "i < length fl"
  then show "ts[x := t] ! i < length fl"
    using exclusive_range [OF assms(1) i] assms(3) exclusive_length [OF assms(1)]
    by (cases "i = x") simp_all
next
  fix i j
  assume a: "i < length fl" "j < length fl" "fl ! i" "fl ! j" "ts[x := t] ! i = ts[x := t] ! j"
  from a(3,4) assms(2) have "i \<noteq> x" "j \<noteq> x" by auto
  with a(5) have "ts ! i = ts ! j" by simp
  from exclusive_uniq [OF assms(1) a(1,2,3,4) this] show "i = j" .
qed

text \<open>The flag of \<open>y\<close> passes to \<open>x\<close>, which has the same origin and no flag yet.\<close>

lemma exclusive_handover:
  assumes "exclusive fl ts" "x < length fl" "y < length fl" "x \<noteq> y" "\<not> fl ! x" "ts ! x = ts ! y"
  shows "exclusive (fl[x := fl ! y, y := False]) ts"
proof (rule exclusiveI)
  let ?fl = "fl[x := fl ! y, y := False]"
  show "length ts = length ?fl" using exclusive_length [OF assms(1)] by simp
  {
    fix i assume "i < length ?fl"
    then show "ts ! i < length ?fl" using exclusive_range [OF assms(1), of i] by simp
  }
  fix i j
  assume a: "i < length ?fl" "j < length ?fl" "?fl ! i" "?fl ! j" "ts ! i = ts ! j"
  from a(1,2) have l: "i < length fl" "j < length fl" by simp_all
  have v: "k \<noteq> y \<and> (if k = x then fl ! y else fl ! k)" if "k < length fl" "?fl ! k" for k
    using that assms(2,3,4) by (cases "k = y"; cases "k = x") simp_all
  note vi = v [OF l(1) a(3)] and vj = v [OF l(2) a(4)]
  show "i = j"
  proof (cases "i = x")
    case True
    show ?thesis
    proof (cases "j = x")
      case True with \<open>i = x\<close> show ?thesis by simp
    next
      case False
      with vj have "fl ! j" by simp
      moreover from vi True have "fl ! y" by simp
      moreover have "ts ! y = ts ! j" using a(5) True assms(6) by simp
      ultimately have "y = j" using exclusive_uniq [OF assms(1) assms(3) l(2)] by blast
      with vj show ?thesis by simp
    qed
  next
    case False
    with vi have fi: "fl ! i" by simp
    show ?thesis
    proof (cases "j = x")
      case True
      with vj have "fl ! y" by simp
      moreover have "ts ! i = ts ! y" using a(5) True assms(6) by simp
      ultimately have "i = y" using exclusive_uniq [OF assms(1) l(1) assms(3) fi] by blast
      with vi show ?thesis by simp
    next
      case False
      with vj have "fl ! j" by simp
      from exclusive_uniq [OF assms(1) l fi this a(5)] show ?thesis .
    qed
  qed
qed

text \<open>A new object without flag, with the origin of an object or its own.\<close>

lemma exclusive_append:
  assumes "exclusive fl ts" "t \<le> length fl"
  shows "exclusive (fl @ [False]) (ts @ [t])"
proof (rule exclusiveI)
  note len = exclusive_length [OF assms(1)]
  show "length (ts @ [t]) = length (fl @ [False])" using len by simp
  {
    fix i assume "i < length (fl @ [False])"
    then show "(ts @ [t]) ! i < length (fl @ [False])"
      using exclusive_range [OF assms(1), of i] assms(2) len
      by (cases "i < length fl") (simp_all add: nth_append)
  }
  fix i j
  assume a: "i < length (fl @ [False])" "j < length (fl @ [False])"
    "(fl @ [False]) ! i" "(fl @ [False]) ! j" "(ts @ [t]) ! i = (ts @ [t]) ! j"
  have v: "k < length fl \<and> fl ! k" if "k < length (fl @ [False])" "(fl @ [False]) ! k" for k
    using that by (cases "k < length fl") (simp_all add: nth_append)
  note vi = v [OF a(1,3)] and vj = v [OF a(2,4)]
  from a(5) vi vj len have "ts ! i = ts ! j" by (simp add: nth_append)
  with vi vj show "i = j" using exclusive_uniq [OF assms(1)] by blast
qed

text \<open>The flag of a handle with an origin of its own can be set.\<close>

lemma exclusive_fresh:
  assumes "exclusive fl ts" "x < length fl" "\<forall>i < length fl. i \<noteq> x \<longrightarrow> ts ! i \<noteq> ts ! x"
  shows "exclusive (fl[x := True]) ts"
proof (rule exclusiveI)
  show "length ts = length (fl[x := True])" using exclusive_length [OF assms(1)] by simp
  {
    fix i assume "i < length (fl[x := True])"
    then show "ts ! i < length (fl[x := True])" using exclusive_range [OF assms(1), of i] by simp
  }
  fix i j
  assume a: "i < length (fl[x := True])" "j < length (fl[x := True])"
    "fl[x := True] ! i" "fl[x := True] ! j" "ts ! i = ts ! j"
  from a(1,2) have l: "i < length fl" "j < length fl" by simp_all
  show "i = j"
  proof (cases "i = x \<or> j = x")
    case True
    with assms(3) l a(5) show ?thesis by metis
  next
    case False
    with a(3,4) have "fl ! i" "fl ! j" by simp_all
    from exclusive_uniq [OF assms(1) l this a(5)] show ?thesis .
  qed
qed

lemma exclusive_acquire:
  assumes "exclusive fl ts"
  shows "exclusive (fl @ [True]) (ts @ [length ts])"
proof -
  note len = exclusive_length [OF assms]
  have a: "exclusive (fl @ [False]) (ts @ [length ts])"
    using assms len by (intro exclusive_append) simp_all
  have r: "ts ! i \<noteq> length fl" if "i < length fl" for i
    using exclusive_range [OF assms that] by simp
  have "\<forall>i < length (fl @ [False]). i \<noteq> length fl \<longrightarrow>
          (ts @ [length ts]) ! i \<noteq> (ts @ [length ts]) ! length fl"
    using r len by (auto simp: nth_append less_Suc_eq)
  from exclusive_fresh [OF a _ this] show ?thesis by simp
qed

lemma exclusive_move_construct:
  assumes "exclusive fl ts" "x < length fl"
  shows "exclusive (fl[x := False] @ [fl ! x]) (ts @ [ts ! x])"
proof -
  note len = exclusive_length [OF assms(1)]
  have a: "exclusive (fl @ [False]) (ts @ [ts ! x])"
    using assms exclusive_range [OF assms] by (intro exclusive_append) simp_all
  have "exclusive ((fl @ [False])[length fl := (fl @ [False]) ! x, x := False]) (ts @ [ts ! x])"
    using assms(2) len by (intro exclusive_handover [OF a]) (simp_all add: nth_append)
  moreover have "(fl @ [False])[length fl := (fl @ [False]) ! x, x := False] = fl[x := False] @ [fl ! x]"
    using assms(2) by (simp add: nth_append list_update_append)
  ultimately show ?thesis by simp
qed

lemma exclusive_move_assign:
  assumes "exclusive fl ts" "x < length fl" "y < length fl" "x \<noteq> y"
  shows "exclusive (fl[x := fl ! y, y := False]) (ts[x := ts ! y])"
proof -
  note len = exclusive_length [OF assms(1)]
  have a: "exclusive (fl[x := False]) (ts[x := ts ! y])"
    using assms(2) exclusive_range [OF assms(1,3)]
    by (intro exclusive_retag [OF exclusive_clear [OF assms(1)]]) simp_all
  have "exclusive ((fl[x := False])[x := (fl[x := False]) ! y, y := False]) (ts[x := ts ! y])"
    using assms(2,3,4) len by (intro exclusive_handover [OF a]) simp_all
  then show ?thesis using assms(4) by simp
qed

lemma exclusive_holders:
  assumes "exclusive fl ts"
  shows "length (holders fl ts a) \<le> 1"
proof -
  have d: "distinct (holders fl ts a)" by (simp add: holders_def)
  have "i = j" if "i \<in> set (holders fl ts a)" "j \<in> set (holders fl ts a)" for i j
    using that exclusive_uniq [OF assms, of i j] by (auto simp: holders_def)
  then have "card (set (holders fl ts a)) \<le> 1" by (intro card_le_Suc0_iff_eq [THEN iffD2, unfolded One_nat_def [symmetric]]) auto
  with distinct_card [OF d] show ?thesis by simp
qed

text \<open>What each operation of the two classes does to the flags.\<close>

lemma mor_flags_nth: "lookup st x = Some r \<Longrightarrow> mor_flags st ! x = valid r"
  by (simp add: mor_flags_def lookup_def split: if_splits)

lemma fg_flags_nth: "lookup st x = Some g \<Longrightarrow> fg_flags st ! x = is_open g"
  by (simp add: fg_flags_def lookup_def split: if_splits)

lemma mor_flags_ctor: "mor_flags (snd (MoveOnlyResource_ctor nm st)) = mor_flags st @ [True]"
  by (simp add: MoveOnlyResource_ctor_def mor_flags_def)

lemma fg_flags_ctor: "fg_flags (snd (FileGuard_ctor fn st)) = fg_flags st @ [True]"
  by (simp add: FileGuard_ctor_def fg_flags_def)

lemma mor_flags_move_ctor:
  assumes "MoveOnlyResource_move_ctor x st = Inr (b, st')"
  shows "x < length st \<and> mor_flags st' = (mor_flags st)[x := False] @ [mor_flags st ! x]"
proof -
  from assms obtain o1 where o: "lookup st x = Some o1"
    and s: "st' = st[x := Some \<lparr>name = moved_from_string (name o1), valid = False\<rparr>]
                    @ [Some \<lparr>name = name o1, valid = valid o1\<rparr>]"
    by (auto simp: MoveOnlyResource_move_ctor_def split: option.splits)
  have lt: "x < length st" using o by (rule lookup_Some_less)
  show ?thesis unfolding s using lt mor_flags_nth [OF o]
    by (simp add: mor_flags_def map_update)
qed

lemma fg_flags_move_ctor:
  assumes "FileGuard_move_ctor x st = Inr (b, st')"
  shows "x < length st \<and> fg_flags st' = (fg_flags st)[x := False] @ [fg_flags st ! x]"
proof -
  from assms obtain o1 where o: "lookup st x = Some o1"
    and s: "st' = st[x := Some \<lparr>filename = moved_from_string (filename o1), is_open = False\<rparr>]
                    @ [Some \<lparr>filename = filename o1, is_open = is_open o1\<rparr>]"
    by (auto simp: FileGuard_move_ctor_def split: option.splits)
  have lt: "x < length st" using o by (rule lookup_Some_less)
  show ?thesis unfolding s using lt fg_flags_nth [OF o]
    by (simp add: fg_flags_def map_update)
qed

lemma mor_flags_move_assign:
  assumes "MoveOnlyResource_move_assign x y st = Inr st'" "x \<noteq> y"
  shows "x < length st \<and> y < length st \<and>
         mor_flags st' = (mor_flags st)[x := mor_flags st ! y, y := False]"
proof -
  from assms obtain t o1 where t: "lookup st x = Some t" and o: "lookup st y = Some o1"
    and s: "st' = st[x := Some \<lparr>name = name o1, valid = valid o1\<rparr>,
                     y := Some \<lparr>name = moved_from_string (name o1), valid = False\<rparr>]"
    by (auto simp: MoveOnlyResource_move_assign_def split: option.splits)
  show ?thesis unfolding s using lookup_Some_less [OF t] lookup_Some_less [OF o] mor_flags_nth [OF o]
    by (simp add: mor_flags_def map_update)
qed

lemma fg_flags_move_assign:
  assumes "FileGuard_move_assign x y st = Inr st'" "x \<noteq> y"
  shows "x < length st \<and> y < length st \<and>
         fg_flags st' = (fg_flags st)[x := fg_flags st ! y, y := False]"
proof -
  from assms obtain t o1 where t: "lookup st x = Some t" and o: "lookup st y = Some o1"
    and s: "st' = st[x := Some ((FileGuard_close t)\<lparr>filename := filename o1, is_open := is_open o1\<rparr>),
                     y := Some \<lparr>filename = moved_from_string (filename o1), is_open = False\<rparr>]"
    by (auto simp: FileGuard_move_assign_def split: option.splits)
  show ?thesis unfolding s using lookup_Some_less [OF t] lookup_Some_less [OF o] fg_flags_nth [OF o]
    by (simp add: fg_flags_def map_update)
qed

lemma mor_flags_dtor:
  assumes "MoveOnlyResource_dtor x st = Inr st'"
  shows "mor_flags st' = (mor_flags st)[x := False]"
  using assms by (auto simp: MoveOnlyResource_dtor_def mor_flags_def map_update split: option.splits)

lemma fg_flags_dtor:
  assumes "FileGuard_dtor x st = Inr st'"
  shows "fg_flags st' = (fg_flags st)[x := False]"
  using assms by (auto simp: FileGuard_dtor_def fg_flags_def map_update split: option.splits)

lemma mor_apply_exclusive:
  assumes "mor_apply x st = Inr st'" "exclusive (mor_flags st) ts"
  shows "exclusive (mor_flags st') (origin_step x ts)"
proof (cases x)
  case (Acquire nm)
  with assms(1) have "mor_flags st' = mor_flags st @ [True]" using mor_flags_ctor [of nm st] by auto
  with Acquire exclusive_acquire [OF assms(2)] show ?thesis by simp
next
  case (MoveConstruct a)
  with assms(1) obtain b where "MoveOnlyResource_move_ctor a st = Inr (b, st')"
    by (cases "MoveOnlyResource_move_ctor a st") auto
  from mor_flags_move_ctor [OF this]
  have l: "a < length (mor_flags st)" and e: "mor_flags st' = (mor_flags st)[a := False] @ [mor_flags st ! a]"
    by (simp_all add: mor_flags_def)
  from exclusive_move_construct [OF assms(2) l] MoveConstruct e show ?thesis by simp
next
  case (MoveAssign a b)
  show ?thesis
  proof (cases "a = b")
    case True
    with MoveAssign assms show ?thesis by (simp add: MoveOnlyResource_move_assign_def)
  next
    case False
    from MoveAssign assms(1) have "MoveOnlyResource_move_assign a b st = Inr st'" by simp
    from mor_flags_move_assign [OF this False]
    have l: "a < length (mor_flags st)" "b < length (mor_flags st)"
      and e: "mor_flags st' = (mor_flags st)[a := mor_flags st ! b, b := False]"
      by (simp_all add: mor_flags_def)
    from exclusive_move_assign [OF assms(2) l False] MoveAssign e show ?thesis by simp
  qed
next
  case (Destroy a)
  with assms(1) have "mor_flags st' = (mor_flags st)[a := False]" by (simp add: mor_flags_dtor)
  with Destroy exclusive_clear [OF assms(2)] show ?thesis by simp
qed

lemma fg_apply_exclusive:
  assumes "fg_apply x st = Inr st'" "exclusive (fg_flags st) ts"
  shows "exclusive (fg_flags st') (origin_step x ts)"
proof (cases x)
  case (Acquire nm)
  with assms(1) have "fg_flags st' = fg_flags st @ [True]" using fg_flags_ctor [of nm st] by auto
  with Acquire exclusive_acquire [OF assms(2)] show ?thesis by simp
next
  case (MoveConstruct a)
  with assms(1) obtain b where "FileGuard_move_ctor a st = Inr (b, st')"
    by (cases "FileGuard_move_ctor a st") auto
  from fg_flags_move_ctor [OF this]
  have l: "a < length (fg_flags st)" and e: "fg_flags st' = (fg_flags st)[a := False] @ [fg_flags st ! a]"
    by (simp_all add: fg_flags_def)
  from exclusive_move_construct [OF assms(2) l] MoveConstruct e show ?thesis by simp
next
  case (MoveAssign a b)
  show ?thesis
  proof (cases "a = b")
    case True
    with MoveAssign assms show ?thesis by (simp add: FileGuard_move_assign_def)
  next
    case False
    from MoveAssign assms(1) have "FileGuard_move_assign a b st = Inr st'" by simp
    from fg_flags_move_assign [OF this False]
    have l: "a < length (fg_flags st)" "b < length (fg_flags st)"
      and e: "fg_flags st' = (fg_flags st)[a := fg_flags st ! b, b := False]"
      by (simp_all add: fg_flags_def)
    from exclusive_move_assign [OF assms(2) l False] MoveAssign e show ?thesis by simp
  qed
next
  case (Destroy a)
  with assms(1) have "fg_flags st' = (fg_flags st)[a := False]" by (simp add: fg_flags_dtor)
  with Destroy exclusive_clear [OF assms(2)] show ?thesis by simp
qed

lemma mor_run_exclusive:
  "mor_run xs st = Inr st' \<Longrightarrow> exclusive (mor_flags st) ts \<Longrightarrow> exclusive (mor_flags st') (origins xs ts)"
proof (induction xs arbitrary: st ts)
  case Nil
  then show ?case by simp
next
  case (Cons x xs)
  from Cons.prems(1) obtain st1 where a: "mor_apply x st = Inr st1" and r: "mor_run xs st1 = Inr st'"
    by (auto split: sum.splits)
  from Cons.IH [OF r mor_apply_exclusive [OF a Cons.prems(2)]] show ?case by simp
qed

lemma fg_run_exclusive:
  "fg_run xs st = Inr st' \<Longrightarrow> exclusive (fg_flags st) ts \<Longrightarrow> exclusive (fg_flags st') (origins xs ts)"
proof (induction xs arbitrary: st ts)
  case Nil
  then show ?case by simp
next
  case (Cons x xs)
  from Cons.prems(1) obtain st1 where a: "fg_apply x st = Inr st1" and r: "fg_run xs st1 = Inr st'"
    by (auto split: sum.splits)
  from Cons.IH [OF r fg_apply_exclusive [OF a Cons.prems(2)]] show ?case by simp
qed

lemma mor_run_append:
  "mor_run (xs @ ys) st = (case mor_run xs st of Inl e \<Rightarrow> Inl e | Inr st1 \<Rightarrow> mor_run ys st1)"
  by (induction xs arbitrary: st) (auto split: sum.splits)

lemma fg_run_append:
  "fg_run (xs @ ys) st = (case fg_run xs st of Inl e \<Rightarrow> Inl e | Inr st1 \<Rightarrow> fg_run ys st1)"
  by (induction xs arbitrary: st) (auto split: sum.splits)

lemma mor_run_prefix:
  assumes "mor_run xs st = Inr st'"
  shows "\<exists>st1. mor_run (take k xs) st = Inr st1"
proof -
  have "mor_run (take k xs @ drop k xs) st = Inr st'" using assms by simp
  then show ?thesis unfolding mor_run_append by (cases "mor_run (take k xs) st") auto
qed

lemma fg_run_prefix:
  assumes "fg_run xs st = Inr st'"
  shows "\<exists>st1. fg_run (take k xs) st = Inr st1"
proof -
  have "fg_run (take k xs @ drop k xs) st = Inr st'" using assms by simp
  then show ?thesis unfolding fg_run_append by (cases "fg_run (take k xs) st") auto
qed

subsection \<open>Shared pointers\<close>

lemma create_shared_resource_eq:
  "create_shared_resource i st =
     (Some (length (blocks st)),
      st\<lparr>instance_count := instance_count st + 1,
         blocks := blocks st @ [Some \<lparr>managed = \<lparr>res_id = i\<rparr>, use_count = 1\<rparr>]\<rparr>)"
  by (simp add: create_shared_resource_def make_shared_def Resource_ctor_def)

lemma blocks_update_same:
  "lookup (blocks st) p = Some cb \<Longrightarrow> st\<lparr>blocks := (blocks st)[p := Some cb]\<rparr> = st"
  by (simp add: update_lookup_same)

lemma duplicate_times_eq:
  "lookup (blocks st) p = Some cb \<Longrightarrow>
   duplicate_times k (Some p) st =
     Inr (replicate k (Some p),
          st\<lparr>blocks := (blocks st)[p := Some (cb\<lparr>use_count := use_count cb + k\<rparr>)]\<rparr>)"
proof (induction k arbitrary: st cb)
  case 0
  then show ?case by (simp add: blocks_update_same)
next
  case (Suc k)
  let ?cb1 = "cb\<lparr>use_count := use_count cb + 1\<rparr>"
  let ?st1 = "st\<lparr>blocks := (blocks st)[p := Some ?cb1]\<rparr>"
  have c: "shared_ptr_copy (Some p) st = Inr (Some p, ?st1)"
    using Suc.prems by (simp add: shared_ptr_copy_def)
  have l: "lookup (blocks ?st1) p = Some ?cb1"
    using Suc.prems by (simp add: lookup_update lookup_Some_less)
  show ?case
    using c Suc.IH [OF l] by simp
qed

lemma release_all_eq:
  "lookup (blocks st) p = Some cb \<Longrightarrow> k < use_count cb \<Longrightarrow>
   release_all (replicate k (Some p)) st =
     Inr (st\<lparr>blocks := (blocks st)[p := Some (cb\<lparr>use_count := use_count cb - k\<rparr>)]\<rparr>)"
proof (induction k arbitrary: st cb)
  case 0
  then show ?case by (simp add: blocks_update_same)
next
  case (Suc k)
  let ?cb1 = "cb\<lparr>use_count := use_count cb - 1\<rparr>"
  let ?st1 = "st\<lparr>blocks := (blocks st)[p := Some ?cb1]\<rparr>"
  have c: "shared_ptr_dtor (Some p) st = Inr ?st1"
    using Suc.prems by (simp add: shared_ptr_dtor_def)
  have l: "lookup (blocks ?st1) p = Some ?cb1"
    using Suc.prems by (simp add: lookup_update lookup_Some_less)
  have k: "k < use_count ?cb1" using Suc.prems by simp
  show ?case
    using c Suc.IH [OF l k] by simp
qed

lemma last_release_eq:
  "lookup (blocks st) p = Some cb \<Longrightarrow> use_count cb = 1 \<Longrightarrow>
   shared_ptr_dtor (Some p) st =
     Inr (st\<lparr>blocks := (blocks st)[p := None], instance_count := instance_count st - 1\<rparr>)"
  by (simp add: shared_ptr_dtor_def Resource_dtor_def)

lemma share_loop_eq:
  "i \<le>s n \<Longrightarrow>
   share_loop r i n acc st =
     (case duplicate_times (nat (sint n - sint i)) r st of
        Inl e \<Rightarrow> Inl e
      | Inr (cs, st') \<Rightarrow> Inr (acc @ cs, st'))"
proof (induction r i n acc st rule: share_loop.induct)
  case (1 r i n acc st)
  show ?case
  proof (cases "i <s n")
    case False
    with "1.prems" have "sint n - sint i = 0"
      by (simp add: word_sless_alt word_sle_eq)
    with False show ?thesis by (subst share_loop.simps) simp
  next
    case True
    then have lt: "sint i < sint n" by (simp add: word_sless_alt)
    have s: "sint (i + 1) = sint i + 1" using True by (rule inc_sint)
    have le: "i + 1 \<le>s n" using lt s by (simp add: word_sle_eq)
    have n: "nat (sint n - sint i) = Suc (nat (sint n - sint (i + 1)))"
      using lt s by simp
    show ?thesis
    proof (cases "shared_ptr_copy r st")
      case (Inl e)
      with True n show ?thesis by (subst share_loop.simps) simp
    next
      case (Inr cst)
      obtain c st1 where cst: "cst = (c, st1)" by (cases cst)
      from "1.IH" [OF True Inr [unfolded cst] refl le]
      show ?thesis
        using True Inr cst n
        by (subst share_loop.simps) (simp split: sum.splits prod.splits)
    qed
  qed
qed

lemma sint_of_nat_small: "k < 2 ^ 31 \<Longrightarrow> sint (of_nat k :: cint) = int k"
proof -
  assume a: "k < 2 ^ 31"
  then have b: "int k < 2 ^ 31"
    by (metis of_nat_less_iff of_nat_numeral of_nat_power)
  have "sint (of_nat k :: cint) = signed_take_bit 31 (int k)"
    by (simp add: signed_of_nat)
  also have "\<dots> = int k"
    using b by (intro signed_take_bit_int_eq_self) simp_all
  finally show ?thesis .
qed

lemma share_resource_eq:
  assumes "lookup (blocks st) p = Some cb" "1 < use_count cb" "k < 2 ^ 31"
  shows "share_resource (Some p) (of_nat k) st =
           Inr (replicate k (Some p),
                st\<lparr>blocks := (blocks st)[p := Some (cb\<lparr>use_count := use_count cb + k - 1\<rparr>)]\<rparr>)"
proof -
  have s: "sint (of_nat k :: cint) = int k" using assms(3) by (rule sint_of_nat_small)
  have le: "(0 :: cint) \<le>s of_nat k" using s by (simp add: word_sle_eq)
  let ?cb1 = "cb\<lparr>use_count := use_count cb + k\<rparr>"
  let ?st1 = "st\<lparr>blocks := (blocks st)[p := Some ?cb1]\<rparr>"
  have l: "share_loop (Some p) 0 (of_nat k) [] st = Inr (replicate k (Some p), ?st1)"
    unfolding share_loop_eq [OF le] using s duplicate_times_eq [OF assms(1), of k] by simp
  have lk: "lookup (blocks ?st1) p = Some ?cb1"
    using assms(1) by (simp add: lookup_update lookup_Some_less)
  have d: "shared_ptr_dtor (Some p) ?st1 =
            Inr (st\<lparr>blocks := (blocks st)[p := Some (cb\<lparr>use_count := use_count cb + k - 1\<rparr>)]\<rparr>)"
    using lk assms(2) by (simp add: shared_ptr_dtor_def)
  show ?thesis unfolding share_resource_def l using d by simp
qed

subsection \<open>Sequences of buffer operations\<close>






subsection \<open>Objects that have been moved from\<close>

lemma LargeBuffer_moved_from:
  assumes "well_formed ls" "lookup (objs ls) a = Some x" "LargeBuffer_move_ctor a ls = Inr (b, ls1)"
  shows "well_formed ls1 \<and> b \<noteq> a \<and>
    lookup (objs ls1) a = Some \<lparr>m_data = None, m_size = 0\<rparr> \<and>
    LargeBuffer_size a ls1 = Inr 0 \<and>
    LargeBuffer_fill a v ls1 = Inr ls1 \<and>
    (\<exists>c ls2. LargeBuffer_copy_ctor a ls1 = Inr (c, ls2) \<and> well_formed ls2) \<and>
    (\<exists>c ls2. LargeBuffer_move_ctor a ls1 = Inr (c, ls2) \<and> well_formed ls2) \<and>
    (\<exists>ls2. LargeBuffer_copy_assign a b ls1 = Inr ls2 \<and> well_formed ls2) \<and>
    (\<exists>ls2. LargeBuffer_move_assign a b ls1 = Inr ls2 \<and> well_formed ls2) \<and>
    (\<exists>ls2. LargeBuffer_copy_assign b a ls1 = Inr ls2 \<and> well_formed ls2) \<and>
    (\<exists>ls2. LargeBuffer_move_assign b a ls1 = Inr ls2 \<and> well_formed ls2) \<and>
    LargeBuffer_copy_assign a a ls1 = Inr ls1 \<and>
    LargeBuffer_move_assign a a ls1 = Inr ls1 \<and>
    (\<exists>ls2. LargeBuffer_dtor a ls1 = Inr ls2 \<and> well_formed ls2 \<and>
       heap ls2 = heap ls1 \<and> heap ls1 = heap ls \<and>
       (\<exists>ls3. LargeBuffer_dtor b ls2 = Inr ls3 \<and> well_formed ls3 \<and>
          heap ls3 = (case m_data x of None \<Rightarrow> heap ls | Some p \<Rightarrow> (heap ls)[p := None]) \<and>
          (case m_data x of None \<Rightarrow> True
           | Some p \<Rightarrow> lookup (heap ls) p \<noteq> None \<and> lookup (heap ls3) p = None))) \<and>
    (\<exists>ls2. LargeBuffer_dtor b ls1 = Inr ls2 \<and> well_formed ls2 \<and>
       heap ls2 = (case m_data x of None \<Rightarrow> heap ls | Some p \<Rightarrow> (heap ls)[p := None]) \<and>
       (\<exists>ls3. LargeBuffer_dtor a ls2 = Inr ls3 \<and> well_formed ls3 \<and> heap ls3 = heap ls2))"
proof -
  let ?null = "\<lparr>m_data = None, m_size = 0\<rparr>"
  have la: "a < length (objs ls)" using assms(2) by (rule lookup_Some_less)
  from assms(2,3) have b: "b = length (objs ls)"
    and ls1: "ls1 = ls\<lparr>objs := (objs ls)[a := Some ?null] @ [Some x],
                      move_count := move_count ls + 1\<rparr>"
    by (auto simp: LargeBuffer_move_ctor_def)
  have ne: "b \<noteq> a" using la b by simp
  have w1: "well_formed ls1"
    using LargeBuffer_move_ctor_wf [OF assms(1,2)] assms(3) by simp
  have lka: "lookup (objs ls1) a = Some ?null"
    unfolding ls1 using la by (simp add: lookup_append lookup_update)
  have lkb: "lookup (objs ls1) b = Some x"
    unfolding ls1 b by (simp add: lookup_append)
  have h1: "heap ls1 = heap ls" unfolding ls1 by simp
  have sz: "LargeBuffer_size a ls1 = Inr 0" using lka by (simp add: LargeBuffer_size_def)
  have fl: "LargeBuffer_fill a v ls1 = Inr ls1"
    using LargeBuffer_fill_eq [OF lka live_heapD [OF w1 lka], of v] by simp
  have cc: "\<exists>c ls2. LargeBuffer_copy_ctor a ls1 = Inr (c, ls2) \<and> well_formed ls2"
    using LargeBuffer_copy_ctor_wf [OF w1 lka] by blast
  have mc: "\<exists>c ls2. LargeBuffer_move_ctor a ls1 = Inr (c, ls2) \<and> well_formed ls2"
    using LargeBuffer_move_ctor_wf [OF w1 lka] by blast
  have ca: "\<exists>ls2. LargeBuffer_copy_assign s t ls1 = Inr ls2 \<and> well_formed ls2"
    if "lookup (objs ls1) s = Some u" "lookup (objs ls1) t = Some u'" "s \<noteq> t" for s t u u'
  proof -
    from LargeBuffer_copy_assign_eq [OF w1 that] obtain h0 blk where
      w: "consistent ((objs ls1)[s := Some \<lparr>m_data = Some (length h0), m_size = m_size u'\<rparr>]) (h0 @ [Some blk])"
      and r: "LargeBuffer_copy_assign s t ls1 =
             Inr (ls1\<lparr>objs := (objs ls1)[s := Some \<lparr>m_data = Some (length h0), m_size = m_size u'\<rparr>],
                      heap := h0 @ [Some blk],
                      copy_count := copy_count ls1 + 1\<rparr>)"
      by blast
    show ?thesis unfolding r using w by (simp add: well_formed_def)
  qed
  have ma: "\<exists>ls2. LargeBuffer_move_assign s t ls1 = Inr ls2 \<and> well_formed ls2"
    if "lookup (objs ls1) s = Some u" "lookup (objs ls1) t = Some u'" "s \<noteq> t" for s t u u'
  proof -
    from LargeBuffer_move_assign_eq [OF w1 that] obtain h0 where
      w: "consistent ((objs ls1)[s := Some \<lparr>m_data = m_data u', m_size = m_size u'\<rparr>,
                         t := Some \<lparr>m_data = None, m_size = 0\<rparr>]) h0"
      and r: "LargeBuffer_move_assign s t ls1 =
             Inr (ls1\<lparr>objs := (objs ls1)[s := Some \<lparr>m_data = m_data u', m_size = m_size u'\<rparr>,
                                       t := Some \<lparr>m_data = None, m_size = 0\<rparr>],
                      heap := h0,
                      move_count := move_count ls1 + 1\<rparr>)"
      by blast
    show ?thesis unfolding r using w by (simp add: well_formed_def)
  qed
  have self: "LargeBuffer_copy_assign a a ls1 = Inr ls1" "LargeBuffer_move_assign a a ls1 = Inr ls1"
    by (simp_all add: LargeBuffer_copy_assign_def LargeBuffer_move_assign_def)
  have rel: "case m_data x of None \<Rightarrow> True
             | Some p \<Rightarrow> lookup (heap ls) p \<noteq> None \<and> lookup ((heap ls)[p := None]) p = None"
    using live_heapD [OF assms(1,2)]
    by (cases "m_data x") (auto simp: owns_def lookup_update dest: lookup_Some_less split: option.splits)
  have d1: "\<exists>ls2. LargeBuffer_dtor a ls1 = Inr ls2 \<and> well_formed ls2 \<and>
       heap ls2 = heap ls1 \<and> heap ls1 = heap ls \<and>
       (\<exists>ls3. LargeBuffer_dtor b ls2 = Inr ls3 \<and> well_formed ls3 \<and>
          heap ls3 = (case m_data x of None \<Rightarrow> heap ls | Some p \<Rightarrow> (heap ls)[p := None]) \<and>
          (case m_data x of None \<Rightarrow> True
           | Some p \<Rightarrow> lookup (heap ls) p \<noteq> None \<and> lookup (heap ls3) p = None))"
  proof -
    let ?ls2 = "ls1\<lparr>objs := (objs ls1)[a := None], heap := heap ls1\<rparr>"
    from LargeBuffer_dtor_eq [OF w1 lka]
    have r2: "LargeBuffer_dtor a ls1 = Inr ?ls2" and w2: "well_formed ?ls2"
      by (simp_all add: well_formed_def)
    have lkb2: "lookup (objs ?ls2) b = Some x" using lkb ne by (simp add: lookup_update)
    let ?h3 = "case m_data x of None \<Rightarrow> heap ls | Some p \<Rightarrow> (heap ls)[p := None]"
    let ?ls3 = "?ls2\<lparr>objs := (objs ?ls2)[b := None], heap := ?h3\<rparr>"
    from LargeBuffer_dtor_eq [OF w2 lkb2]
    have r3: "LargeBuffer_dtor b ?ls2 = Inr ?ls3" and w3: "well_formed ?ls3"
      by (simp_all add: well_formed_def h1 cong: option.case_cong)
    have g: "case m_data x of None \<Rightarrow> True
             | Some p \<Rightarrow> lookup (heap ls) p \<noteq> None \<and> lookup (heap ?ls3) p = None"
      using rel by (cases "m_data x") (simp_all cong: option.case_cong)
    have "heap ?ls2 = heap ls1" "heap ?ls3 = ?h3" by simp_all
    with r2 w2 h1 r3 w3 g show ?thesis by blast
  qed
  have d2: "\<exists>ls2. LargeBuffer_dtor b ls1 = Inr ls2 \<and> well_formed ls2 \<and>
       heap ls2 = (case m_data x of None \<Rightarrow> heap ls | Some p \<Rightarrow> (heap ls)[p := None]) \<and>
       (\<exists>ls3. LargeBuffer_dtor a ls2 = Inr ls3 \<and> well_formed ls3 \<and> heap ls3 = heap ls2)"
  proof -
    let ?h2 = "case m_data x of None \<Rightarrow> heap ls | Some p \<Rightarrow> (heap ls)[p := None]"
    let ?ls2 = "ls1\<lparr>objs := (objs ls1)[b := None], heap := ?h2\<rparr>"
    from LargeBuffer_dtor_eq [OF w1 lkb]
    have r2: "LargeBuffer_dtor b ls1 = Inr ?ls2" and w2: "well_formed ?ls2"
      by (simp_all add: well_formed_def h1 cong: option.case_cong)
    have lka2: "lookup (objs ?ls2) a = Some ?null" using lka ne by (simp add: lookup_update)
    let ?ls3 = "?ls2\<lparr>objs := (objs ?ls2)[a := None], heap := heap ?ls2\<rparr>"
    from LargeBuffer_dtor_eq [OF w2 lka2]
    have r3: "LargeBuffer_dtor a ?ls2 = Inr ?ls3" and w3: "well_formed ?ls3"
      by (simp_all add: well_formed_def)
    have "heap ?ls2 = ?h2" "heap ?ls3 = heap ?ls2" by simp_all
    with r2 w2 r3 w3 show ?thesis by blast
  qed
  from ne have ne': "a \<noteq> b" by simp
  show ?thesis
    using w1 ne lka sz fl cc mc ca [OF lka lkb ne'] ma [OF lka lkb ne'] ca [OF lkb lka ne]
      ma [OF lkb lka ne] self d1 d2
    by (intro conjI)
qed

lemma FileGuard_close_idem: "FileGuard_close (FileGuard_close g) = FileGuard_close g"
  by (simp add: FileGuard_close_def)

lemma FileGuard_moved_from:
  assumes "lookup fs a = Some g" "FileGuard_move_ctor a fs = Inr (b, fs1)"
  shows "b \<noteq> a \<and>
    FileGuard_is_open a fs1 = Inr False \<and>
    (\<exists>n. FileGuard_filename a fs1 = Inr n) \<and>
    (\<exists>g0. lookup fs1 a = Some g0 \<and> FileGuard_close g0 = g0) \<and>
    (\<exists>c fs2. FileGuard_move_ctor a fs1 = Inr (c, fs2) \<and> FileGuard_is_open c fs2 = Inr False) \<and>
    (\<exists>fs2. FileGuard_move_assign a b fs1 = Inr fs2 \<and> FileGuard_is_open a fs2 = Inr (is_open g)) \<and>
    (\<exists>fs2. FileGuard_move_assign b a fs1 = Inr fs2 \<and> FileGuard_is_open b fs2 = Inr False) \<and>
    FileGuard_move_assign a a fs1 = Inr fs1 \<and>
    (\<exists>fs2. FileGuard_dtor a fs1 = Inr fs2 \<and> open_guards fs2 = open_guards fs1 \<and>
       (\<exists>fs3. FileGuard_dtor b fs2 = Inr fs3)) \<and>
    (\<exists>fs2. FileGuard_dtor b fs1 = Inr fs2 \<and> (\<exists>fs3. FileGuard_dtor a fs2 = Inr fs3))"
proof -
  let ?mf = "\<lparr>filename = moved_from_string (filename g), is_open = False\<rparr>"
  let ?P = "\<lambda>x. case x of None \<Rightarrow> False | Some g \<Rightarrow> is_open g"
  have la: "a < length fs" using assms(1) by (rule lookup_Some_less)
  from assms have b: "b = length fs"
    and fs1: "fs1 = fs[a := Some ?mf] @ [Some g]"
    by (auto simp: FileGuard_move_ctor_def)
  have ne: "b \<noteq> a" using la b by simp
  have lka: "lookup fs1 a = Some ?mf"
    unfolding fs1 using la by (simp add: lookup_append lookup_update)
  have lkb: "lookup fs1 b = Some g" unfolding fs1 b by (simp add: lookup_append)
  have len: "a < length fs1" "b < length fs1" unfolding fs1 b using la by simp_all
  have q: "FileGuard_is_open a fs1 = Inr False" "\<exists>n. FileGuard_filename a fs1 = Inr n"
    using lka by (simp_all add: FileGuard_is_open_def FileGuard_filename_def)
  have cl: "\<exists>g0. lookup fs1 a = Some g0 \<and> FileGuard_close g0 = g0"
    using lka by (simp add: FileGuard_close_def)
  have mc: "\<exists>c fs2. FileGuard_move_ctor a fs1 = Inr (c, fs2) \<and> FileGuard_is_open c fs2 = Inr False"
    using lka by (simp add: FileGuard_move_ctor_def FileGuard_is_open_def lookup_append)
  have ma1: "\<exists>fs2. FileGuard_move_assign a b fs1 = Inr fs2 \<and> FileGuard_is_open a fs2 = Inr (is_open g)"
    using lka lkb ne len
    by (simp add: FileGuard_move_assign_def FileGuard_is_open_def lookup_update)
  have ma2: "\<exists>fs2. FileGuard_move_assign b a fs1 = Inr fs2 \<and> FileGuard_is_open b fs2 = Inr False"
    using lka lkb ne len
    by (simp add: FileGuard_move_assign_def FileGuard_is_open_def lookup_update)
  have self: "FileGuard_move_assign a a fs1 = Inr fs1" by (simp add: FileGuard_move_assign_def)
  have d1: "\<exists>fs2. FileGuard_dtor a fs1 = Inr fs2 \<and> open_guards fs2 = open_guards fs1 \<and>
       (\<exists>fs3. FileGuard_dtor b fs2 = Inr fs3)"
  proof -
    have r: "FileGuard_dtor a fs1 = Inr (fs1[a := None])"
      using lka by (simp add: FileGuard_dtor_def)
    have "fs1 ! a = Some ?mf" using lka by (rule lookup_Some_nth)
    with filter_update_count [OF len(1), of ?P None]
    have c: "open_guards (fs1[a := None]) = open_guards fs1"
      by (simp add: open_guards_def)
    have "lookup (fs1[a := None]) b = Some g" using lkb ne by (simp add: lookup_update)
    then have "\<exists>fs3. FileGuard_dtor b (fs1[a := None]) = Inr fs3"
      by (simp add: FileGuard_dtor_def)
    with r c show ?thesis by simp
  qed
  have d2: "\<exists>fs2. FileGuard_dtor b fs1 = Inr fs2 \<and> (\<exists>fs3. FileGuard_dtor a fs2 = Inr fs3)"
  proof -
    have r: "FileGuard_dtor b fs1 = Inr (fs1[b := None])"
      using lkb by (simp add: FileGuard_dtor_def)
    have "lookup (fs1[b := None]) a = Some ?mf" using lka ne by (simp add: lookup_update)
    then have "\<exists>fs3. FileGuard_dtor a (fs1[b := None]) = Inr fs3"
      by (simp add: FileGuard_dtor_def)
    with r show ?thesis by simp
  qed
  show ?thesis
    using ne q cl mc ma1 ma2 self d1 d2 by (intro conjI)
qed

lemma ResourceManager_moved_from:
  assumes "well_formed rs" "lookup (objs rs) a = Some x"
    "ResourceManager_move_ctor a rs = Inr (b, rs1)"
  shows "well_formed rs1 \<and> b \<noteq> a \<and>
    ResourceManager_size a rs1 = Inr 0 \<and>
    ResourceManager_data a rs1 = Inr None \<and>
    ResourceManager_is_valid a rs1 = Inr False \<and>
    (\<exists>c rs2. ResourceManager_copy_ctor a rs1 = Inr (c, rs2) \<and> well_formed rs2) \<and>
    (\<exists>c rs2. ResourceManager_move_ctor a rs1 = Inr (c, rs2) \<and> well_formed rs2) \<and>
    (\<exists>rs2. ResourceManager_copy_assign a b rs1 = Inr rs2 \<and> well_formed rs2) \<and>
    (\<exists>rs2. ResourceManager_move_assign a b rs1 = Inr rs2 \<and> well_formed rs2) \<and>
    (\<exists>rs2. ResourceManager_copy_assign b a rs1 = Inr rs2 \<and> well_formed rs2) \<and>
    (\<exists>rs2. ResourceManager_move_assign b a rs1 = Inr rs2 \<and> well_formed rs2) \<and>
    ResourceManager_copy_assign a a rs1 = Inr rs1 \<and>
    ResourceManager_move_assign a a rs1 = Inr rs1 \<and>
    (\<exists>rs2. ResourceManager_dtor a rs1 = Inr rs2 \<and> well_formed rs2 \<and>
       heap rs2 = heap rs1 \<and> heap rs1 = heap rs \<and>
       destructions rs2 = destructions rs + 1 \<and>
       (\<exists>rs3. ResourceManager_dtor b rs2 = Inr rs3 \<and> well_formed rs3 \<and>
          destructions rs3 = destructions rs + 2 \<and>
          heap rs3 = (case m_data x of None \<Rightarrow> heap rs | Some p \<Rightarrow> (heap rs)[p := None]) \<and>
          (case m_data x of None \<Rightarrow> True
           | Some p \<Rightarrow> lookup (heap rs) p \<noteq> None \<and> lookup (heap rs3) p = None))) \<and>
    (\<exists>rs2. ResourceManager_dtor b rs1 = Inr rs2 \<and> well_formed rs2 \<and>
       heap rs2 = (case m_data x of None \<Rightarrow> heap rs | Some p \<Rightarrow> (heap rs)[p := None]) \<and>
       (\<exists>rs3. ResourceManager_dtor a rs2 = Inr rs3 \<and> well_formed rs3 \<and> heap rs3 = heap rs2))"
proof -
  let ?null = "\<lparr>m_data = None, m_size = 0\<rparr>"
  have la: "a < length (objs rs)" using assms(2) by (rule lookup_Some_less)
  from assms(2,3) have b: "b = length (objs rs)"
    and rs1: "rs1 = rs\<lparr>objs := (objs rs)[a := Some ?null] @ [Some x],
                      move_constructions := move_constructions rs + 1\<rparr>"
    by (auto simp: ResourceManager_move_ctor_def)
  have ne: "b \<noteq> a" using la b by simp
  have w1: "well_formed rs1"
    using ResourceManager_move_ctor_wf [OF assms(1,2)] assms(3) by simp
  have lka: "lookup (objs rs1) a = Some ?null"
    unfolding rs1 using la by (simp add: lookup_append lookup_update)
  have lkb: "lookup (objs rs1) b = Some x"
    unfolding rs1 b by (simp add: lookup_append)
  have h1: "heap rs1 = heap rs" and k1: "destructions rs1 = destructions rs"
    unfolding rs1 by simp_all
  have q: "ResourceManager_size a rs1 = Inr 0" "ResourceManager_data a rs1 = Inr None"
    "ResourceManager_is_valid a rs1 = Inr False"
    using lka
    by (simp_all add: ResourceManager_size_def ResourceManager_data_def ResourceManager_is_valid_def)
  have cc: "\<exists>c rs2. ResourceManager_copy_ctor a rs1 = Inr (c, rs2) \<and> well_formed rs2"
    using ResourceManager_copy_ctor_wf [OF w1 lka] by blast
  have mc: "\<exists>c rs2. ResourceManager_move_ctor a rs1 = Inr (c, rs2) \<and> well_formed rs2"
    using ResourceManager_move_ctor_wf [OF w1 lka] by blast
  have ca: "\<exists>rs2. ResourceManager_copy_assign s t rs1 = Inr rs2 \<and> well_formed rs2"
    if "lookup (objs rs1) s = Some u" "lookup (objs rs1) t = Some u'" "s \<noteq> t" for s t u u'
  proof -
    from ResourceManager_copy_assign_eq [OF w1 that] obtain h0 blk where
      r: "ResourceManager_copy_assign s t rs1 =
             Inr (if 0 < m_size u'
                  then rs1\<lparr>objs := (objs rs1)[s := Some \<lparr>m_data = Some (length h0), m_size = m_size u'\<rparr>],
                           heap := h0 @ [Some blk]\<rparr>
                  else rs1\<lparr>objs := (objs rs1)[s := Some \<lparr>m_data = None, m_size = m_size u'\<rparr>],
                           heap := h0\<rparr>)"
      and w: "if 0 < m_size u'
            then consistent ((objs rs1)[s := Some \<lparr>m_data = Some (length h0), m_size = m_size u'\<rparr>]) (h0 @ [Some blk])
            else consistent ((objs rs1)[s := Some \<lparr>m_data = None, m_size = m_size u'\<rparr>]) h0"
      by blast
    show ?thesis unfolding r using w by (simp add: well_formed_def split: if_splits)
  qed
  have ma: "\<exists>rs2. ResourceManager_move_assign s t rs1 = Inr rs2 \<and> well_formed rs2"
    if "lookup (objs rs1) s = Some u" "lookup (objs rs1) t = Some u'" "s \<noteq> t" for s t u u'
  proof -
    from ResourceManager_move_assign_eq [OF w1 that] obtain h0 where
      w: "consistent ((objs rs1)[s := Some \<lparr>m_data = m_data u', m_size = m_size u'\<rparr>,
                         t := Some \<lparr>m_data = None, m_size = 0\<rparr>]) h0"
      and r: "ResourceManager_move_assign s t rs1 =
             Inr (rs1\<lparr>objs := (objs rs1)[s := Some \<lparr>m_data = m_data u', m_size = m_size u'\<rparr>,
                                       t := Some \<lparr>m_data = None, m_size = 0\<rparr>],
                      heap := h0\<rparr>)"
      by blast
    show ?thesis unfolding r using w by (simp add: well_formed_def)
  qed
  have self: "ResourceManager_copy_assign a a rs1 = Inr rs1"
    "ResourceManager_move_assign a a rs1 = Inr rs1"
    by (simp_all add: ResourceManager_copy_assign_def ResourceManager_move_assign_def)
  have rel: "case m_data x of None \<Rightarrow> True
             | Some p \<Rightarrow> lookup (heap rs) p \<noteq> None \<and> lookup ((heap rs)[p := None]) p = None"
    using live_heapD [OF assms(1,2)]
    by (cases "m_data x") (auto simp: owns_def lookup_update dest: lookup_Some_less split: option.splits)
  have d1: "\<exists>rs2. ResourceManager_dtor a rs1 = Inr rs2 \<and> well_formed rs2 \<and>
       heap rs2 = heap rs1 \<and> heap rs1 = heap rs \<and>
       destructions rs2 = destructions rs + 1 \<and>
       (\<exists>rs3. ResourceManager_dtor b rs2 = Inr rs3 \<and> well_formed rs3 \<and>
          destructions rs3 = destructions rs + 2 \<and>
          heap rs3 = (case m_data x of None \<Rightarrow> heap rs | Some p \<Rightarrow> (heap rs)[p := None]) \<and>
          (case m_data x of None \<Rightarrow> True
           | Some p \<Rightarrow> lookup (heap rs) p \<noteq> None \<and> lookup (heap rs3) p = None))"
  proof -
    let ?rs2 = "rs1\<lparr>objs := (objs rs1)[a := None], heap := heap rs1,
                    destructions := destructions rs1 + 1\<rparr>"
    from ResourceManager_dtor_eq [OF w1 lka]
    have r2: "ResourceManager_dtor a rs1 = Inr ?rs2" and w2: "well_formed ?rs2"
      by (simp_all add: well_formed_def)
    have lkb2: "lookup (objs ?rs2) b = Some x" using lkb ne by (simp add: lookup_update)
    let ?h3 = "case m_data x of None \<Rightarrow> heap rs | Some p \<Rightarrow> (heap rs)[p := None]"
    let ?rs3 = "?rs2\<lparr>objs := (objs ?rs2)[b := None], heap := ?h3,
                     destructions := destructions ?rs2 + 1\<rparr>"
    from ResourceManager_dtor_eq [OF w2 lkb2]
    have r3: "ResourceManager_dtor b ?rs2 = Inr ?rs3" and w3: "well_formed ?rs3"
      by (simp_all add: well_formed_def h1 cong: option.case_cong)
    have g: "case m_data x of None \<Rightarrow> True
             | Some p \<Rightarrow> lookup (heap rs) p \<noteq> None \<and> lookup (heap ?rs3) p = None"
      using rel by (cases "m_data x") (simp_all cong: option.case_cong)
    have "heap ?rs2 = heap rs1" "heap ?rs3 = ?h3"
      "destructions ?rs2 = destructions rs + 1" "destructions ?rs3 = destructions rs + 2"
      using k1 by simp_all
    with r2 w2 h1 r3 w3 g show ?thesis by blast
  qed
  have d2: "\<exists>rs2. ResourceManager_dtor b rs1 = Inr rs2 \<and> well_formed rs2 \<and>
       heap rs2 = (case m_data x of None \<Rightarrow> heap rs | Some p \<Rightarrow> (heap rs)[p := None]) \<and>
       (\<exists>rs3. ResourceManager_dtor a rs2 = Inr rs3 \<and> well_formed rs3 \<and> heap rs3 = heap rs2)"
  proof -
    let ?h2 = "case m_data x of None \<Rightarrow> heap rs | Some p \<Rightarrow> (heap rs)[p := None]"
    let ?rs2 = "rs1\<lparr>objs := (objs rs1)[b := None], heap := ?h2,
                    destructions := destructions rs1 + 1\<rparr>"
    from ResourceManager_dtor_eq [OF w1 lkb]
    have r2: "ResourceManager_dtor b rs1 = Inr ?rs2" and w2: "well_formed ?rs2"
      by (simp_all add: well_formed_def h1 cong: option.case_cong)
    have lka2: "lookup (objs ?rs2) a = Some ?null" using lka ne by (simp add: lookup_update)
    let ?rs3 = "?rs2\<lparr>objs := (objs ?rs2)[a := None], heap := heap ?rs2,
                     destructions := destructions ?rs2 + 1\<rparr>"
    from ResourceManager_dtor_eq [OF w2 lka2]
    have r3: "ResourceManager_dtor a ?rs2 = Inr ?rs3" and w3: "well_formed ?rs3"
      by (simp_all add: well_formed_def)
    have "heap ?rs2 = ?h2" "heap ?rs3 = heap ?rs2" by simp_all
    with r2 w2 r3 w3 show ?thesis by blast
  qed
  from ne have ne': "a \<noteq> b" by simp
  show ?thesis
    using w1 ne q cc mc ca [OF lka lkb ne'] ma [OF lka lkb ne'] ca [OF lkb lka ne]
      ma [OF lkb lka ne] self d1 d2
    by (intro conjI)
qed

lemma shared_ptr_moved_from:
  "shared_ptr_move r = (r, None) \<and>
   shared_ptr_use_count (snd (shared_ptr_move r)) ss = Inr 0 \<and>
   shared_ptr_copy (snd (shared_ptr_move r)) ss = Inr (None, ss) \<and>
   shared_ptr_dtor (snd (shared_ptr_move r)) ss = Inr ss"
  by (simp add: shared_ptr_move_def shared_ptr_use_count_def shared_ptr_copy_def
        shared_ptr_dtor_def)

section \<open>Facts about the example states\<close>

lemma rm_example_lookup:
  "lookup (objs rm_example) 0 = Some \<lparr>m_data = Some 0, m_size = 2\<rparr>"
  "lookup (objs rm_example) 1 = Some \<lparr>m_data = Some 1, m_size = 1\<rparr>"
  by (simp_all add: rm_example_def lookup_def)

lemma lb_example_lookup:
  "lookup (objs lb_example) 0 = Some \<lparr>m_data = Some 0, m_size = 2\<rparr>"
  "lookup (objs lb_example) 1 = Some \<lparr>m_data = Some 1, m_size = 1\<rparr>"
  by (simp_all add: lb_example_def lookup_def)

lemma example_well_formed: "well_formed rm_example" "well_formed lb_example"
  by (simp_all add: well_formed_def consistent_def owns_def pointers_def lookup_def
        rm_example_def lb_example_def allocatable_word)

section \<open>Transfer\<close>

text \<open>
  C1. Move construction from a live buffer \<open>a\<close>, for both classes: it succeeds and
  creates a new object \<open>b\<close>; afterwards \<open>a\<close> has size 0 and a null pointer, \<open>b\<close> has the
  size and the pointer \<open>a\<close> had, the free store is untouched, and so \<open>b\<close> holds the
  contents \<open>a\<close> held, in the very block \<open>a\<close> owned.
\<close>

theorem transfer_empties_source:
  assumes "lookup (objs rs) a = Some x" and "lookup (objs ls) a' = Some y"
  shows "(\<exists>b rs'. ResourceManager_move_ctor a rs = Inr (b, rs') \<and> b \<noteq> a \<and>
            ResourceManager_size a rs' = Inr 0 \<and>
            ResourceManager_data a rs' = Inr None \<and>
            ResourceManager_is_valid a rs' = Inr False \<and>
            ResourceManager_size b rs' = Inr (m_size x) \<and>
            ResourceManager_data b rs' = Inr (m_data x) \<and>
            heap rs' = heap rs \<and> contents rs' b = contents rs a) \<and>
         (\<exists>b ls'. LargeBuffer_move_ctor a' ls = Inr (b, ls') \<and> b \<noteq> a' \<and>
            LargeBuffer_size a' ls' = Inr 0 \<and>
            lookup (objs ls') a' = Some \<lparr>m_data = None, m_size = 0\<rparr> \<and>
            LargeBuffer_size b ls' = Inr (m_size y) \<and>
            lookup (objs ls') b = Some y \<and>
            heap ls' = heap ls \<and> contents ls' b = contents ls a')"
proof -
  have la: "a < length (objs rs)" using assms(1) by (rule lookup_Some_less)
  have la': "a' < length (objs ls)" using assms(2) by (rule lookup_Some_less)
  have rm: "\<exists>b rs'. ResourceManager_move_ctor a rs = Inr (b, rs') \<and> b \<noteq> a \<and>
            ResourceManager_size a rs' = Inr 0 \<and>
            ResourceManager_data a rs' = Inr None \<and>
            ResourceManager_is_valid a rs' = Inr False \<and>
            ResourceManager_size b rs' = Inr (m_size x) \<and>
            ResourceManager_data b rs' = Inr (m_data x) \<and>
            heap rs' = heap rs \<and> contents rs' b = contents rs a"
    using assms(1) la
    by (simp add: ResourceManager_move_ctor_def ResourceManager_size_def
          ResourceManager_data_def ResourceManager_is_valid_def contents_def lookup_append
          lookup_update split: option.splits)
  have lb: "\<exists>b ls'. LargeBuffer_move_ctor a' ls = Inr (b, ls') \<and> b \<noteq> a' \<and>
            LargeBuffer_size a' ls' = Inr 0 \<and>
            lookup (objs ls') a' = Some \<lparr>m_data = None, m_size = 0\<rparr> \<and>
            LargeBuffer_size b ls' = Inr (m_size y) \<and>
            lookup (objs ls') b = Some y \<and>
            heap ls' = heap ls \<and> contents ls' b = contents ls a'"
    using assms(2) la'
    by (simp add: LargeBuffer_move_ctor_def LargeBuffer_size_def contents_def lookup_append
          lookup_update split: option.splits)
  from rm lb show ?thesis by (rule conjI)
qed

theorem transfer_empties_source_witness:
  "(\<exists>b rs'. ResourceManager_move_ctor 0 rm_example = Inr (b, rs') \<and> b \<noteq> 0 \<and>
      ResourceManager_size 0 rs' = Inr 0 \<and>
      ResourceManager_data 0 rs' = Inr None \<and>
      ResourceManager_is_valid 0 rs' = Inr False \<and>
      ResourceManager_size b rs' = Inr 2 \<and>
      ResourceManager_data b rs' = Inr (Some 0) \<and>
      heap rs' = heap rm_example \<and> contents rs' b = Some [Some 5, Some 7]) \<and>
   (\<exists>b ls'. LargeBuffer_move_ctor 0 lb_example = Inr (b, ls') \<and> b \<noteq> 0 \<and>
      LargeBuffer_size 0 ls' = Inr 0 \<and>
      lookup (objs ls') 0 = Some \<lparr>m_data = None, m_size = 0\<rparr> \<and>
      LargeBuffer_size b ls' = Inr 2 \<and>
      lookup (objs ls') b = Some \<lparr>m_data = Some 0, m_size = 2\<rparr> \<and>
      heap ls' = heap lb_example \<and> contents ls' b = Some [Some 5, Some 7])"
proof -
  have c1: "contents rm_example 0 = Some [Some 5, Some 7]"
    by (simp add: contents_def rm_example_def lookup_def)
  have c2: "contents lb_example 0 = Some [Some 5, Some 7]"
    by (simp add: contents_def lb_example_def lookup_def)
  show ?thesis
    using transfer_empties_source [OF rm_example_lookup(1) lb_example_lookup(1)]
    by (simp add: c1 c2)
qed

section \<open>The moved-from state\<close>

text \<open>
  C2. Let \<open>a\<close> be a live \<^verbatim>\<open>LargeBuffer\<close> of a well-formed memory that has just been moved
  into \<open>b\<close>. Every operation on \<open>a\<close> then succeeds and leaves the memory well formed:
  \<^verbatim>\<open>size\<close> (0), \<^verbatim>\<open>fill\<close> (no effect), copy and move construction from \<open>a\<close>, copy and
  move assignment with \<open>a\<close> on either side, and the destructor. The destructor of \<open>a\<close>
  leaves the free store as it is; the block \<open>a\<close> owned before the move is live until the
  destructor of \<open>b\<close> releases it, in whichever order the two destructors run, and no
  \<^verbatim>\<open>delete[]\<close> is applied to a released block. Likewise for a \<^verbatim>\<open>FileGuard\<close> \<open>a'\<close> moved into
  \<open>b'\<close>: it is closed, \<^verbatim>\<open>close\<close> leaves it as it is, its moves, assignments and
  destructor succeed, and destroying it does not change the number of open guards.
  \<^verbatim>\<open>close\<close> is idempotent on every guard. A \<^verbatim>\<open>ResourceManager\<close> \<open>a''\<close> moved into \<open>b''\<close>
  behaves as the \<^verbatim>\<open>LargeBuffer\<close> does, each destructor adding one to \<^verbatim>\<open>destructions_\<close>.
  A \<^verbatim>\<open>shared_ptr\<close> that has been moved from is empty: its use count is 0, copying it
  gives an empty pointer, and destroying it changes nothing.
\<close>

theorem moved_from_is_inert:
  assumes "well_formed ls" "lookup (objs ls) a = Some x" "LargeBuffer_move_ctor a ls = Inr (b, ls1)"
    and "lookup fs a' = Some g" "FileGuard_move_ctor a' fs = Inr (b', fs1)"
    and "well_formed rs" "lookup (objs rs) a'' = Some x''"
      "ResourceManager_move_ctor a'' rs = Inr (b'', rs1)"
  shows "(well_formed ls1 \<and> b \<noteq> a \<and>
    lookup (objs ls1) a = Some \<lparr>m_data = None, m_size = 0\<rparr> \<and>
    LargeBuffer_size a ls1 = Inr 0 \<and>
    LargeBuffer_fill a v ls1 = Inr ls1 \<and>
    (\<exists>c ls2. LargeBuffer_copy_ctor a ls1 = Inr (c, ls2) \<and> well_formed ls2) \<and>
    (\<exists>c ls2. LargeBuffer_move_ctor a ls1 = Inr (c, ls2) \<and> well_formed ls2) \<and>
    (\<exists>ls2. LargeBuffer_copy_assign a b ls1 = Inr ls2 \<and> well_formed ls2) \<and>
    (\<exists>ls2. LargeBuffer_move_assign a b ls1 = Inr ls2 \<and> well_formed ls2) \<and>
    (\<exists>ls2. LargeBuffer_copy_assign b a ls1 = Inr ls2 \<and> well_formed ls2) \<and>
    (\<exists>ls2. LargeBuffer_move_assign b a ls1 = Inr ls2 \<and> well_formed ls2) \<and>
    LargeBuffer_copy_assign a a ls1 = Inr ls1 \<and>
    LargeBuffer_move_assign a a ls1 = Inr ls1 \<and>
    (\<exists>ls2. LargeBuffer_dtor a ls1 = Inr ls2 \<and> well_formed ls2 \<and>
       heap ls2 = heap ls1 \<and> heap ls1 = heap ls \<and>
       (\<exists>ls3. LargeBuffer_dtor b ls2 = Inr ls3 \<and> well_formed ls3 \<and>
          heap ls3 = (case m_data x of None \<Rightarrow> heap ls | Some p \<Rightarrow> (heap ls)[p := None]) \<and>
          (case m_data x of None \<Rightarrow> True
           | Some p \<Rightarrow> lookup (heap ls) p \<noteq> None \<and> lookup (heap ls3) p = None))) \<and>
    (\<exists>ls2. LargeBuffer_dtor b ls1 = Inr ls2 \<and> well_formed ls2 \<and>
       heap ls2 = (case m_data x of None \<Rightarrow> heap ls | Some p \<Rightarrow> (heap ls)[p := None]) \<and>
       (\<exists>ls3. LargeBuffer_dtor a ls2 = Inr ls3 \<and> well_formed ls3 \<and> heap ls3 = heap ls2))) \<and>
   (b' \<noteq> a' \<and>
    FileGuard_is_open a' fs1 = Inr False \<and>
    (\<exists>n. FileGuard_filename a' fs1 = Inr n) \<and>
    (\<exists>g0. lookup fs1 a' = Some g0 \<and> FileGuard_close g0 = g0) \<and>
    (\<exists>c fs2. FileGuard_move_ctor a' fs1 = Inr (c, fs2) \<and> FileGuard_is_open c fs2 = Inr False) \<and>
    (\<exists>fs2. FileGuard_move_assign a' b' fs1 = Inr fs2 \<and> FileGuard_is_open a' fs2 = Inr (is_open g)) \<and>
    (\<exists>fs2. FileGuard_move_assign b' a' fs1 = Inr fs2 \<and> FileGuard_is_open b' fs2 = Inr False) \<and>
    FileGuard_move_assign a' a' fs1 = Inr fs1 \<and>
    (\<exists>fs2. FileGuard_dtor a' fs1 = Inr fs2 \<and> open_guards fs2 = open_guards fs1 \<and>
       (\<exists>fs3. FileGuard_dtor b' fs2 = Inr fs3)) \<and>
    (\<exists>fs2. FileGuard_dtor b' fs1 = Inr fs2 \<and> (\<exists>fs3. FileGuard_dtor a' fs2 = Inr fs3))) \<and>
   FileGuard_close (FileGuard_close g') = FileGuard_close g' \<and>
   (well_formed rs1 \<and> b'' \<noteq> a'' \<and>
    ResourceManager_size a'' rs1 = Inr 0 \<and>
    ResourceManager_data a'' rs1 = Inr None \<and>
    ResourceManager_is_valid a'' rs1 = Inr False \<and>
    (\<exists>c rs2. ResourceManager_copy_ctor a'' rs1 = Inr (c, rs2) \<and> well_formed rs2) \<and>
    (\<exists>c rs2. ResourceManager_move_ctor a'' rs1 = Inr (c, rs2) \<and> well_formed rs2) \<and>
    (\<exists>rs2. ResourceManager_copy_assign a'' b'' rs1 = Inr rs2 \<and> well_formed rs2) \<and>
    (\<exists>rs2. ResourceManager_move_assign a'' b'' rs1 = Inr rs2 \<and> well_formed rs2) \<and>
    (\<exists>rs2. ResourceManager_copy_assign b'' a'' rs1 = Inr rs2 \<and> well_formed rs2) \<and>
    (\<exists>rs2. ResourceManager_move_assign b'' a'' rs1 = Inr rs2 \<and> well_formed rs2) \<and>
    ResourceManager_copy_assign a'' a'' rs1 = Inr rs1 \<and>
    ResourceManager_move_assign a'' a'' rs1 = Inr rs1 \<and>
    (\<exists>rs2. ResourceManager_dtor a'' rs1 = Inr rs2 \<and> well_formed rs2 \<and>
       heap rs2 = heap rs1 \<and> heap rs1 = heap rs \<and>
       destructions rs2 = destructions rs + 1 \<and>
       (\<exists>rs3. ResourceManager_dtor b'' rs2 = Inr rs3 \<and> well_formed rs3 \<and>
          destructions rs3 = destructions rs + 2 \<and>
          heap rs3 = (case m_data x'' of None \<Rightarrow> heap rs | Some p \<Rightarrow> (heap rs)[p := None]) \<and>
          (case m_data x'' of None \<Rightarrow> True
           | Some p \<Rightarrow> lookup (heap rs) p \<noteq> None \<and> lookup (heap rs3) p = None))) \<and>
    (\<exists>rs2. ResourceManager_dtor b'' rs1 = Inr rs2 \<and> well_formed rs2 \<and>
       heap rs2 = (case m_data x'' of None \<Rightarrow> heap rs | Some p \<Rightarrow> (heap rs)[p := None]) \<and>
       (\<exists>rs3. ResourceManager_dtor a'' rs2 = Inr rs3 \<and> well_formed rs3 \<and> heap rs3 = heap rs2))) \<and>
   (shared_ptr_move r = (r, None) \<and>
    shared_ptr_use_count (snd (shared_ptr_move r)) ss = Inr 0 \<and>
    shared_ptr_copy (snd (shared_ptr_move r)) ss = Inr (None, ss) \<and>
    shared_ptr_dtor (snd (shared_ptr_move r)) ss = Inr ss)"
  by (rule conjI [OF LargeBuffer_moved_from [OF assms(1,2,3), of v]
        conjI [OF FileGuard_moved_from [OF assms(4,5)]
          conjI [OF FileGuard_close_idem [of g']
            conjI [OF ResourceManager_moved_from [OF assms(6,7,8)]
              shared_ptr_moved_from [of r ss]]]]])

theorem moved_from_is_inert_witness:
  "(well_formed lb_moved \<and> (2::nat) \<noteq> 0 \<and>
    lookup (objs lb_moved) 0 = Some \<lparr>m_data = None, m_size = 0\<rparr> \<and>
    LargeBuffer_size 0 lb_moved = Inr 0 \<and>
    LargeBuffer_fill 0 42 lb_moved = Inr lb_moved \<and>
    (\<exists>c ls2. LargeBuffer_copy_ctor 0 lb_moved = Inr (c, ls2) \<and> well_formed ls2) \<and>
    (\<exists>c ls2. LargeBuffer_move_ctor 0 lb_moved = Inr (c, ls2) \<and> well_formed ls2) \<and>
    (\<exists>ls2. LargeBuffer_copy_assign 0 2 lb_moved = Inr ls2 \<and> well_formed ls2) \<and>
    (\<exists>ls2. LargeBuffer_move_assign 0 2 lb_moved = Inr ls2 \<and> well_formed ls2) \<and>
    (\<exists>ls2. LargeBuffer_copy_assign 2 0 lb_moved = Inr ls2 \<and> well_formed ls2) \<and>
    (\<exists>ls2. LargeBuffer_move_assign 2 0 lb_moved = Inr ls2 \<and> well_formed ls2) \<and>
    LargeBuffer_copy_assign 0 0 lb_moved = Inr lb_moved \<and>
    LargeBuffer_move_assign 0 0 lb_moved = Inr lb_moved \<and>
    (\<exists>ls2. LargeBuffer_dtor 0 lb_moved = Inr ls2 \<and> well_formed ls2 \<and>
       heap ls2 = heap lb_moved \<and> heap lb_moved = heap lb_example \<and>
       (\<exists>ls3. LargeBuffer_dtor 2 ls2 = Inr ls3 \<and> well_formed ls3 \<and>
          heap ls3 = (heap lb_example)[0 := None] \<and>
          lookup (heap lb_example) 0 \<noteq> None \<and> lookup (heap ls3) 0 = None)) \<and>
    (\<exists>ls2. LargeBuffer_dtor 2 lb_moved = Inr ls2 \<and> well_formed ls2 \<and>
       heap ls2 = (heap lb_example)[0 := None] \<and>
       (\<exists>ls3. LargeBuffer_dtor 0 ls2 = Inr ls3 \<and> well_formed ls3 \<and> heap ls3 = heap ls2))) \<and>
   ((2::nat) \<noteq> 0 \<and>
    FileGuard_is_open 0 fg_moved = Inr False \<and>
    (\<exists>n. FileGuard_filename 0 fg_moved = Inr n) \<and>
    (\<exists>g0. lookup fg_moved 0 = Some g0 \<and> FileGuard_close g0 = g0) \<and>
    (\<exists>c fs2. FileGuard_move_ctor 0 fg_moved = Inr (c, fs2) \<and> FileGuard_is_open c fs2 = Inr False) \<and>
    (\<exists>fs2. FileGuard_move_assign 0 2 fg_moved = Inr fs2 \<and> FileGuard_is_open 0 fs2 = Inr True) \<and>
    (\<exists>fs2. FileGuard_move_assign 2 0 fg_moved = Inr fs2 \<and> FileGuard_is_open 2 fs2 = Inr False) \<and>
    FileGuard_move_assign 0 0 fg_moved = Inr fg_moved \<and>
    (\<exists>fs2. FileGuard_dtor 0 fg_moved = Inr fs2 \<and> open_guards fs2 = open_guards fg_moved \<and>
       (\<exists>fs3. FileGuard_dtor 2 fs2 = Inr fs3)) \<and>
    (\<exists>fs2. FileGuard_dtor 2 fg_moved = Inr fs2 \<and> (\<exists>fs3. FileGuard_dtor 0 fs2 = Inr fs3))) \<and>
   FileGuard_close (FileGuard_close \<lparr>filename = ''file1.txt'', is_open = True\<rparr>) =
     FileGuard_close \<lparr>filename = ''file1.txt'', is_open = True\<rparr> \<and>
   (well_formed rm_moved \<and> (2::nat) \<noteq> 0 \<and>
    ResourceManager_size 0 rm_moved = Inr 0 \<and>
    ResourceManager_data 0 rm_moved = Inr None \<and>
    ResourceManager_is_valid 0 rm_moved = Inr False \<and>
    (\<exists>c rs2. ResourceManager_copy_ctor 0 rm_moved = Inr (c, rs2) \<and> well_formed rs2) \<and>
    (\<exists>c rs2. ResourceManager_move_ctor 0 rm_moved = Inr (c, rs2) \<and> well_formed rs2) \<and>
    (\<exists>rs2. ResourceManager_copy_assign 0 2 rm_moved = Inr rs2 \<and> well_formed rs2) \<and>
    (\<exists>rs2. ResourceManager_move_assign 0 2 rm_moved = Inr rs2 \<and> well_formed rs2) \<and>
    (\<exists>rs2. ResourceManager_copy_assign 2 0 rm_moved = Inr rs2 \<and> well_formed rs2) \<and>
    (\<exists>rs2. ResourceManager_move_assign 2 0 rm_moved = Inr rs2 \<and> well_formed rs2) \<and>
    ResourceManager_copy_assign 0 0 rm_moved = Inr rm_moved \<and>
    ResourceManager_move_assign 0 0 rm_moved = Inr rm_moved \<and>
    (\<exists>rs2. ResourceManager_dtor 0 rm_moved = Inr rs2 \<and> well_formed rs2 \<and>
       heap rs2 = heap rm_moved \<and> heap rm_moved = heap rm_example \<and>
       destructions rs2 = 1 \<and>
       (\<exists>rs3. ResourceManager_dtor 2 rs2 = Inr rs3 \<and> well_formed rs3 \<and>
          destructions rs3 = 2 \<and>
          heap rs3 = (heap rm_example)[0 := None] \<and>
          lookup (heap rm_example) 0 \<noteq> None \<and> lookup (heap rs3) 0 = None)) \<and>
    (\<exists>rs2. ResourceManager_dtor 2 rm_moved = Inr rs2 \<and> well_formed rs2 \<and>
       heap rs2 = (heap rm_example)[0 := None] \<and>
       (\<exists>rs3. ResourceManager_dtor 0 rs2 = Inr rs3 \<and> well_formed rs3 \<and> heap rs3 = heap rs2))) \<and>
   (shared_ptr_move (Some 0) = (Some 0, None) \<and>
    shared_ptr_use_count (snd (shared_ptr_move (Some 0))) sp_init = Inr 0 \<and>
    shared_ptr_copy (snd (shared_ptr_move (Some 0))) sp_init = Inr (None, sp_init) \<and>
    shared_ptr_dtor (snd (shared_ptr_move (Some 0))) sp_init = Inr sp_init)"
proof -
  have m3: "ResourceManager_move_ctor 0 rm_example = Inr (2, rm_moved)"
    by (simp add: ResourceManager_move_ctor_def rm_example_def rm_moved_def lookup_def)
  have k: "destructions rm_example = 0" by (simp add: rm_example_def)
  have m1: "LargeBuffer_move_ctor 0 lb_example = Inr (2, lb_moved)"
    by (simp add: LargeBuffer_move_ctor_def lb_example_def lb_moved_def lookup_def)
  have g: "lookup fg_pair 0 = Some \<lparr>filename = ''file1.txt'', is_open = True\<rparr>"
    by (simp add: fg_pair_def lookup_def)
  have m2: "FileGuard_move_ctor 0 fg_pair = Inr (2, fg_moved)"
    by (simp add: FileGuard_move_ctor_def fg_pair_def fg_moved_def lookup_def
          moved_from_string_def)
  show ?thesis
    using moved_from_is_inert [OF example_well_formed(2) lb_example_lookup(1) m1 g m2
        example_well_formed(1) rm_example_lookup(1) m3,
        of 42 "\<lparr>filename = ''file1.txt'', is_open = True\<rparr>" "Some 0" sp_init]
    by (simp add: k shared_ptr_move_def)
qed

section \<open>Duplication\<close>

text \<open>
  C3. Copy construction from a live buffer \<open>a\<close> of a well-formed memory, for both
  classes: it succeeds and creates a new object \<open>b\<close> of the same size whose elements
  equal those of \<open>a\<close>, and \<open>a\<close> keeps its own. The two do not share storage: the pointer
  of \<open>b\<close> is null (size 0) or differs from that of \<open>a\<close>, and a write into one leaves the
  other as it was. For \<^verbatim>\<open>ResourceManager\<close> the write is an assignment through
  \<^verbatim>\<open>data()[i]\<close>, for \<^verbatim>\<open>LargeBuffer\<close> it is \<^verbatim>\<open>fill\<close>.
\<close>

theorem duplicate_is_independent:
  assumes "well_formed rs" "lookup (objs rs) a = Some x"
    and "well_formed ls" "lookup (objs ls) a' = Some y"
  shows "(\<exists>b rs' blk pb. ResourceManager_copy_ctor a rs = Inr (b, rs') \<and> b \<noteq> a \<and>
            contents rs a = Some blk \<and> contents rs' a = Some blk \<and> contents rs' b = Some blk \<and>
            length blk = unat (m_size x) \<and>
            ResourceManager_size b rs' = Inr (m_size x) \<and>
            ResourceManager_size a rs' = Inr (m_size x) \<and>
            ResourceManager_data a rs' = Inr (m_data x) \<and>
            ResourceManager_data b rs' = Inr pb \<and>
            (pb = None \<or> pb \<noteq> m_data x) \<and>
            (i < length blk \<longrightarrow>
               (\<exists>h'. store (heap rs') pb i v = Inr h' \<and>
                     contents (rs'\<lparr>heap := h'\<rparr>) a = Some blk \<and>
                     contents (rs'\<lparr>heap := h'\<rparr>) b = Some (blk[i := Some v])) \<and>
               (\<exists>h'. store (heap rs') (m_data x) i v = Inr h' \<and>
                     contents (rs'\<lparr>heap := h'\<rparr>) b = Some blk \<and>
                     contents (rs'\<lparr>heap := h'\<rparr>) a = Some (blk[i := Some v])))) \<and>
         (\<exists>b ls' blk. LargeBuffer_copy_ctor a' ls = Inr (b, ls') \<and> b \<noteq> a' \<and>
            contents ls a' = Some blk \<and> contents ls' a' = Some blk \<and> contents ls' b = Some blk \<and>
            length blk = unat (m_size y) \<and>
            LargeBuffer_size b ls' = Inr (m_size y) \<and> LargeBuffer_size a' ls' = Inr (m_size y) \<and>
            (\<exists>ls2. LargeBuffer_fill b v ls' = Inr ls2 \<and> contents ls2 a' = Some blk \<and>
                    contents ls2 b = Some (replicate (unat (m_size y)) (Some v))) \<and>
            (\<exists>ls3. LargeBuffer_fill a' v ls' = Inr ls3 \<and> contents ls3 b = Some blk \<and>
                    contents ls3 a' = Some (replicate (unat (m_size y)) (Some v))))"
  using ResourceManager_duplicate [OF assms(1,2), of i v]
    LargeBuffer_duplicate [OF assms(3,4), of v]
  by (rule conjI)

theorem duplicate_is_independent_witness:
  "(\<exists>b rs' blk pb. ResourceManager_copy_ctor 0 rm_example = Inr (b, rs') \<and> b \<noteq> 0 \<and>
      contents rm_example 0 = Some blk \<and> contents rs' 0 = Some blk \<and> contents rs' b = Some blk \<and>
      length blk = 2 \<and>
      ResourceManager_size b rs' = Inr 2 \<and>
      ResourceManager_size 0 rs' = Inr 2 \<and>
      ResourceManager_data 0 rs' = Inr (Some 0) \<and>
      ResourceManager_data b rs' = Inr pb \<and>
      (pb = None \<or> pb \<noteq> Some 0) \<and>
      (1 < length blk \<longrightarrow>
         (\<exists>h'. store (heap rs') pb 1 3 = Inr h' \<and>
               contents (rs'\<lparr>heap := h'\<rparr>) 0 = Some blk \<and>
               contents (rs'\<lparr>heap := h'\<rparr>) b = Some (blk[1 := Some 3])) \<and>
         (\<exists>h'. store (heap rs') (Some 0) 1 3 = Inr h' \<and>
               contents (rs'\<lparr>heap := h'\<rparr>) b = Some blk \<and>
               contents (rs'\<lparr>heap := h'\<rparr>) 0 = Some (blk[1 := Some 3])))) \<and>
   (\<exists>b ls' blk. LargeBuffer_copy_ctor 0 lb_example = Inr (b, ls') \<and> b \<noteq> 0 \<and>
      contents lb_example 0 = Some blk \<and> contents ls' 0 = Some blk \<and> contents ls' b = Some blk \<and>
      length blk = 2 \<and>
      LargeBuffer_size b ls' = Inr 2 \<and> LargeBuffer_size 0 ls' = Inr 2 \<and>
      (\<exists>ls2. LargeBuffer_fill b 3 ls' = Inr ls2 \<and> contents ls2 0 = Some blk \<and>
              contents ls2 b = Some (replicate 2 (Some 3))) \<and>
      (\<exists>ls3. LargeBuffer_fill 0 3 ls' = Inr ls3 \<and> contents ls3 b = Some blk \<and>
              contents ls3 0 = Some (replicate 2 (Some 3))))"
  using duplicate_is_independent [OF example_well_formed(1) rm_example_lookup(1)
      example_well_formed(2) lb_example_lookup(1), of 1 3]
  by simp

section \<open>Shared ownership\<close>

text \<open>
  C4. \<^verbatim>\<open>create_shared_resource\<close> adds one to \<^verbatim>\<open>instance_count_\<close> (call the new value \<open>c\<close>)
  and returns a reference with use count 1. Copying the reference \<open>k\<close> times leaves the
  instance counter at \<open>c\<close> and makes the use count \<open>k + 1\<close>; so does \<^verbatim>\<open>share_resource\<close>
  called with \<open>k\<close> on a copy of the reference, for \<open>k\<close> in the range of \<^verbatim>\<open>int\<close>.
  Destroying \<open>j \<le> k\<close> of the references leaves the instance counter at \<open>c\<close>, use count
  \<open>k + 1 - j\<close>. After \<open>k\<close> of them are destroyed, destroying the last one takes the
  instance counter to \<open>c - 1\<close>, its value before the creation, and the resource is gone.
\<close>

theorem shared_resource_counts:
  assumes "create_shared_resource i st = (r, st1)" "j \<le> k"
  shows "instance_count st1 = instance_count st + 1 \<and> shared_ptr_use_count r st1 = Inr 1 \<and>
     (\<exists>st2. duplicate_times k r st1 = Inr (replicate k r, st2) \<and>
        instance_count st2 = instance_count st1 \<and> shared_ptr_use_count r st2 = Inr (k + 1) \<and>
        (\<exists>st3. release_all (replicate j r) st2 = Inr st3 \<and>
           instance_count st3 = instance_count st1 \<and>
           shared_ptr_use_count r st3 = Inr (k + 1 - j)) \<and>
        (\<exists>st3. release_all (replicate k r) st2 = Inr st3 \<and>
           instance_count st3 = instance_count st1 \<and> shared_ptr_use_count r st3 = Inr 1 \<and>
           (\<exists>st4. shared_ptr_dtor r st3 = Inr st4 \<and>
              instance_count st4 = instance_count st1 - 1 \<and>
              instance_count st4 = instance_count st \<and>
              (case r of None \<Rightarrow> False | Some p \<Rightarrow> lookup (blocks st4) p = None)))) \<and>
     (k < 2 ^ 31 \<longrightarrow>
        (\<exists>r' st1' st2. shared_ptr_copy r st1 = Inr (r', st1') \<and>
           share_resource r' (of_nat k) st1' = Inr (replicate k r, st2) \<and>
           instance_count st2 = instance_count st1 \<and>
           shared_ptr_use_count r st2 = Inr (k + 1)))"
proof -
  let ?p = "length (blocks st)"
  let ?cb = "\<lparr>managed = \<lparr>res_id = i\<rparr>, use_count = 1\<rparr>"
  from assms(1) have r: "r = Some ?p"
    and st1: "st1 = st\<lparr>instance_count := instance_count st + 1, blocks := blocks st @ [Some ?cb]\<rparr>"
    unfolding create_shared_resource_eq by simp_all
  have l1: "lookup (blocks st1) ?p = Some ?cb" unfolding st1 by (simp add: lookup_append)
  have len1: "?p < length (blocks st1)" unfolding st1 by simp
  have a: "instance_count st1 = instance_count st + 1" unfolding st1 by simp
  have b: "shared_ptr_use_count r st1 = Inr 1"
    unfolding r using l1 by (simp add: shared_ptr_use_count_def)
  let ?cb2 = "?cb\<lparr>use_count := use_count ?cb + k\<rparr>"
  let ?st2 = "st1\<lparr>blocks := (blocks st1)[?p := Some ?cb2]\<rparr>"
  have d: "duplicate_times k r st1 = Inr (replicate k r, ?st2)"
    unfolding r by (rule duplicate_times_eq [OF l1])
  have l2: "lookup (blocks ?st2) ?p = Some ?cb2" using len1 by (simp add: lookup_update)
  have c2: "instance_count ?st2 = instance_count st1" by simp
  have u2: "shared_ptr_use_count r ?st2 = Inr (k + 1)"
    unfolding r using l2 by (simp add: shared_ptr_use_count_def)
  have rel: "release_all (replicate m r) ?st2 =
               Inr (?st2\<lparr>blocks := (blocks ?st2)[?p := Some (?cb2\<lparr>use_count := use_count ?cb2 - m\<rparr>)]\<rparr>)"
    if "m \<le> k" for m
    unfolding r using that by (intro release_all_eq [OF l2]) simp
  have relj: "\<exists>st3. release_all (replicate j r) ?st2 = Inr st3 \<and>
           instance_count st3 = instance_count st1 \<and>
           shared_ptr_use_count r st3 = Inr (k + 1 - j)"
  proof (intro exI conjI)
    let ?stj = "?st2\<lparr>blocks := (blocks ?st2)[?p := Some (?cb2\<lparr>use_count := use_count ?cb2 - j\<rparr>)]\<rparr>"
    show "release_all (replicate j r) ?st2 = Inr ?stj" by (rule rel [OF assms(2)])
    show "instance_count ?stj = instance_count st1" by simp
    show "shared_ptr_use_count r ?stj = Inr (k + 1 - j)"
      unfolding r using len1 by (simp add: shared_ptr_use_count_def lookup_update)
  qed
  let ?cb3 = "?cb2\<lparr>use_count := use_count ?cb2 - k\<rparr>"
  let ?st3 = "?st2\<lparr>blocks := (blocks ?st2)[?p := Some ?cb3]\<rparr>"
  have l3: "lookup (blocks ?st3) ?p = Some ?cb3" using len1 by (simp add: lookup_update)
  have one: "use_count ?cb3 = 1" by simp
  have fin: "shared_ptr_dtor r ?st3 =
               Inr (?st3\<lparr>blocks := (blocks ?st3)[?p := None],
                        instance_count := instance_count ?st3 - 1\<rparr>)"
    unfolding r by (rule last_release_eq [OF l3 one])
  have relk: "\<exists>st3. release_all (replicate k r) ?st2 = Inr st3 \<and>
           instance_count st3 = instance_count st1 \<and> shared_ptr_use_count r st3 = Inr 1 \<and>
           (\<exists>st4. shared_ptr_dtor r st3 = Inr st4 \<and>
              instance_count st4 = instance_count st1 - 1 \<and>
              instance_count st4 = instance_count st \<and>
              (case r of None \<Rightarrow> False | Some p \<Rightarrow> lookup (blocks st4) p = None))"
  proof (intro exI conjI)
    show "release_all (replicate k r) ?st2 = Inr ?st3" by (rule rel) simp
    show "instance_count ?st3 = instance_count st1" by simp
    show "shared_ptr_use_count r ?st3 = Inr 1"
      unfolding r using l3 by (simp add: shared_ptr_use_count_def)
    show "shared_ptr_dtor r ?st3 =
            Inr (?st3\<lparr>blocks := (blocks ?st3)[?p := None],
                     instance_count := instance_count ?st3 - 1\<rparr>)"
      by (rule fin)
    show "instance_count (?st3\<lparr>blocks := (blocks ?st3)[?p := None],
                     instance_count := instance_count ?st3 - 1\<rparr>) = instance_count st1 - 1"
      by simp
    show "instance_count (?st3\<lparr>blocks := (blocks ?st3)[?p := None],
                     instance_count := instance_count ?st3 - 1\<rparr>) = instance_count st"
      unfolding st1 by simp
    show "case r of None \<Rightarrow> False
          | Some p \<Rightarrow> lookup (blocks (?st3\<lparr>blocks := (blocks ?st3)[?p := None],
                     instance_count := instance_count ?st3 - 1\<rparr>)) p = None"
      unfolding r using len1 by (simp add: lookup_update)
  qed
  have sh: "\<exists>r' st1' st2. shared_ptr_copy r st1 = Inr (r', st1') \<and>
           share_resource r' (of_nat k) st1' = Inr (replicate k r, st2) \<and>
           instance_count st2 = instance_count st1 \<and>
           shared_ptr_use_count r st2 = Inr (k + 1)" if k: "k < 2 ^ 31"
  proof -
    let ?cbc = "?cb\<lparr>use_count := use_count ?cb + 1\<rparr>"
    let ?stc = "st1\<lparr>blocks := (blocks st1)[?p := Some ?cbc]\<rparr>"
    have c: "shared_ptr_copy r st1 = Inr (r, ?stc)"
      unfolding r using l1 by (simp add: shared_ptr_copy_def)
    have lc: "lookup (blocks ?stc) ?p = Some ?cbc" using len1 by (simp add: lookup_update)
    have s: "share_resource r (of_nat k) ?stc =
               Inr (replicate k r,
                    ?stc\<lparr>blocks := (blocks ?stc)[?p := Some (?cbc\<lparr>use_count := use_count ?cbc + k - 1\<rparr>)]\<rparr>)"
      unfolding r by (rule share_resource_eq [OF lc _ k]) simp
    let ?sts = "?stc\<lparr>blocks := (blocks ?stc)[?p := Some (?cbc\<lparr>use_count := use_count ?cbc + k - 1\<rparr>)]\<rparr>"
    have "instance_count ?sts = instance_count st1" by simp
    moreover have "shared_ptr_use_count r ?sts = Inr (k + 1)"
      unfolding r using len1 by (simp add: shared_ptr_use_count_def lookup_update)
    ultimately show ?thesis using c s by blast
  qed
  from a b d c2 u2 relj relk sh show ?thesis by blast
qed

theorem shared_resource_counts_witness:
  "instance_count \<lparr>blocks = [Some \<lparr>managed = \<lparr>res_id = 42\<rparr>, use_count = 1\<rparr>], instance_count = 1\<rparr>
     = instance_count sp_init + 1 \<and>
   shared_ptr_use_count (Some 0)
     \<lparr>blocks = [Some \<lparr>managed = \<lparr>res_id = 42\<rparr>, use_count = 1\<rparr>], instance_count = 1\<rparr> = Inr 1 \<and>
   (\<exists>st2. duplicate_times 3 (Some 0)
             \<lparr>blocks = [Some \<lparr>managed = \<lparr>res_id = 42\<rparr>, use_count = 1\<rparr>], instance_count = 1\<rparr>
           = Inr (replicate 3 (Some 0), st2) \<and>
      instance_count st2 = 1 \<and> shared_ptr_use_count (Some 0) st2 = Inr 4 \<and>
      (\<exists>st3. release_all (replicate 2 (Some 0)) st2 = Inr st3 \<and>
         instance_count st3 = 1 \<and> shared_ptr_use_count (Some 0) st3 = Inr 2) \<and>
      (\<exists>st3. release_all (replicate 3 (Some 0)) st2 = Inr st3 \<and>
         instance_count st3 = 1 \<and> shared_ptr_use_count (Some 0) st3 = Inr 1 \<and>
         (\<exists>st4. shared_ptr_dtor (Some 0) st3 = Inr st4 \<and>
            instance_count st4 = 0 \<and> lookup (blocks st4) 0 = None))) \<and>
   (\<exists>r' st1' st2. shared_ptr_copy (Some 0)
             \<lparr>blocks = [Some \<lparr>managed = \<lparr>res_id = 42\<rparr>, use_count = 1\<rparr>], instance_count = 1\<rparr>
           = Inr (r', st1') \<and>
      share_resource r' 3 st1' = Inr (replicate 3 (Some 0), st2) \<and>
      instance_count st2 = 1 \<and> shared_ptr_use_count (Some 0) st2 = Inr 4)"
proof -
  have c: "create_shared_resource 42 sp_init =
             (Some 0, \<lparr>blocks = [Some \<lparr>managed = \<lparr>res_id = 42\<rparr>, use_count = 1\<rparr>], instance_count = 1\<rparr>)"
    by (simp add: create_shared_resource_eq sp_init_def)
  have j: "(2::nat) \<le> 3" by simp
  show ?thesis
    using shared_resource_counts [OF c j] by (simp add: sp_init_def)
qed

section \<open>Exclusive handles\<close>



text \<open>
  C6. Start with no handle at all and run any sequence of acquisitions, move
  constructions, move assignments and destructions, on any objects, with as many
  acquisitions as one likes. After every prefix of a sequence that runs through, every
  object has an origin, and for every acquisition \<open>a\<close> at most one object is a valid handle
  with origin \<open>a\<close>. The operations of a handle are exactly those of \<open>handle_op\<close>: the
  classes delete their copy constructor and copy assignment, so there is no operation
  that copies.
\<close>

theorem at_most_one_valid_handle:
  assumes "mor_run ops [] = Inr ms" and "fg_run ops' [] = Inr fs"
  shows "(\<exists>st. mor_run (take k ops) [] = Inr st \<and>
               length (origins (take k ops) []) = length st \<and>
               length (holders (mor_flags st) (origins (take k ops) []) a) \<le> 1) \<and>
         (\<exists>st. fg_run (take k ops') [] = Inr st \<and>
               length (origins (take k ops') []) = length st \<and>
               length (holders (fg_flags st) (origins (take k ops') []) a) \<le> 1)"
proof -
  from mor_run_prefix [OF assms(1), of k] obtain st1
    where s1: "mor_run (take k ops) [] = Inr st1" by blast
  from fg_run_prefix [OF assms(2), of k] obtain st2
    where s2: "fg_run (take k ops') [] = Inr st2" by blast
  have e1: "exclusive (mor_flags st1) (origins (take k ops) [])"
    using mor_run_exclusive [OF s1, of "[]"] exclusive_Nil by (simp add: mor_flags_def)
  have e2: "exclusive (fg_flags st2) (origins (take k ops') [])"
    using fg_run_exclusive [OF s2, of "[]"] exclusive_Nil by (simp add: fg_flags_def)
  have "length (origins (take k ops) []) = length st1"
    using exclusive_length [OF e1] by (simp add: mor_flags_def)
  moreover have "length (origins (take k ops') []) = length st2"
    using exclusive_length [OF e2] by (simp add: fg_flags_def)
  ultimately show ?thesis
    using s1 s2 exclusive_holders [OF e1, of a] exclusive_holders [OF e2, of a] by blast
qed

text \<open>
  Two acquisitions; the first handle is moved into a new object and from there into the
  second handle, then destroyed. After the four operations object 1 is the one valid
  handle of acquisition 0, and acquisition 1 has none.
\<close>

theorem at_most_one_valid_handle_witness:
  "((\<exists>st. mor_run (take 4 [Acquire ''resource1'', Acquire ''resource2'', MoveConstruct 0,
                            MoveAssign 1 2, Destroy 0]) [] = Inr st \<and>
          length (origins (take 4 [Acquire ''resource1'', Acquire ''resource2'', MoveConstruct 0,
                                   MoveAssign 1 2, Destroy 0]) []) = length st \<and>
          length (holders (mor_flags st)
                    (origins (take 4 [Acquire ''resource1'', Acquire ''resource2'', MoveConstruct 0,
                                      MoveAssign 1 2, Destroy 0]) []) 0) \<le> 1) \<and>
    (\<exists>st. fg_run (take 4 [Acquire ''file1.txt'', Acquire ''file2.txt'', MoveConstruct 0,
                           MoveAssign 1 2, Destroy 0]) [] = Inr st \<and>
          length (origins (take 4 [Acquire ''file1.txt'', Acquire ''file2.txt'', MoveConstruct 0,
                                   MoveAssign 1 2, Destroy 0]) []) = length st \<and>
          length (holders (fg_flags st)
                    (origins (take 4 [Acquire ''file1.txt'', Acquire ''file2.txt'', MoveConstruct 0,
                                      MoveAssign 1 2, Destroy 0]) []) 0) \<le> 1)) \<and>
   mor_run [Acquire ''resource1'', Acquire ''resource2'', MoveConstruct 0, MoveAssign 1 2] [] =
     Inr [Some \<lparr>name = [], valid = False\<rparr>, Some \<lparr>name = ''resource1'', valid = True\<rparr>,
          Some \<lparr>name = [], valid = False\<rparr>] \<and>
   origins [Acquire ''resource1'', Acquire ''resource2'', MoveConstruct 0, MoveAssign 1 2] [] =
     [0, 0, 0] \<and>
   holders [False, True, False] [0, 0, 0] 0 = [1] \<and>
   holders [False, True, False] [0, 0, 0] 1 = []"
proof -
  have r1: "mor_run [Acquire ''resource1'', Acquire ''resource2'', MoveConstruct 0,
                     MoveAssign 1 2, Destroy 0] [] =
            Inr [None, Some \<lparr>name = ''resource1'', valid = True\<rparr>, Some \<lparr>name = [], valid = False\<rparr>]"
    by (simp add: MoveOnlyResource_ctor_def MoveOnlyResource_move_ctor_def
          MoveOnlyResource_move_assign_def MoveOnlyResource_dtor_def lookup_def
          moved_from_string_def)
  have r2: "fg_run [Acquire ''file1.txt'', Acquire ''file2.txt'', MoveConstruct 0,
                    MoveAssign 1 2, Destroy 0] [] =
            Inr [None, Some \<lparr>filename = ''file1.txt'', is_open = True\<rparr>,
                 Some \<lparr>filename = [], is_open = False\<rparr>]"
    by (simp add: FileGuard_ctor_def FileGuard_move_ctor_def FileGuard_close_def
          FileGuard_move_assign_def FileGuard_dtor_def lookup_def moved_from_string_def)
  have r3: "mor_run [Acquire ''resource1'', Acquire ''resource2'', MoveConstruct 0, MoveAssign 1 2] [] =
     Inr [Some \<lparr>name = [], valid = False\<rparr>, Some \<lparr>name = ''resource1'', valid = True\<rparr>,
          Some \<lparr>name = [], valid = False\<rparr>]"
    by (simp add: MoveOnlyResource_ctor_def MoveOnlyResource_move_ctor_def
          MoveOnlyResource_move_assign_def lookup_def moved_from_string_def)
  have r4: "origins [Acquire ''resource1'', Acquire ''resource2'', MoveConstruct 0, MoveAssign 1 2] [] =
     [0, 0, 0]"
    by simp
  have r5: "holders [False, True, False] [0, 0, 0] 0 = [1]"
    "holders [False, True, False] [0, 0, 0] 1 = []"
    by (simp_all add: holders_def upt_rec)
  show ?thesis
    by (rule conjI [OF at_most_one_valid_handle [OF r1 r2]
          conjI [OF r3 conjI [OF r4 conjI [OF r5(1) r5(2)]]]])
qed

section \<open>Self-assignment\<close>

text \<open>
  C7. Assigning a buffer to itself, by copy or by move, in either class, returns the
  state it was given: the object, its block and the free store are what they were, and
  nothing is released.
\<close>

theorem self_assignment_changes_nothing:
  "ResourceManager_copy_assign a a rs = Inr rs \<and>
   ResourceManager_move_assign a a rs = Inr rs \<and>
   LargeBuffer_copy_assign a a ls = Inr ls \<and>
   LargeBuffer_move_assign a a ls = Inr ls"
  by (simp add: ResourceManager_copy_assign_def ResourceManager_move_assign_def
        LargeBuffer_copy_assign_def LargeBuffer_move_assign_def)

section \<open>Counters\<close>




section \<open>Assignment and the counters\<close>

text \<open>
  C9, as the code has it. For distinct live buffers \<open>d\<close> (destination) and \<open>s\<close> (source)
  of a well-formed memory, both assignments succeed and first release the block \<open>d\<close>
  owned. In \<^verbatim>\<open>LargeBuffer\<close> copy assignment adds one to \<^verbatim>\<open>copy_count_\<close> and move
  assignment adds one to \<^verbatim>\<open>move_count_\<close>. In \<^verbatim>\<open>ResourceManager\<close> neither assignment
  touches any of the four counters: they count constructions and destructions only.
\<close>

theorem assignment_counters:
  assumes "well_formed ls" "lookup (objs ls) d = Some t" "lookup (objs ls) s = Some o1" "d \<noteq> s"
    and "well_formed rs" "lookup (objs rs) d' = Some t'" "lookup (objs rs) s' = Some o1'" "d' \<noteq> s'"
  shows "(\<exists>ls'. LargeBuffer_copy_assign d s ls = Inr ls' \<and>
            copy_count ls' = copy_count ls + 1 \<and> move_count ls' = move_count ls \<and>
            (case m_data t of None \<Rightarrow> True | Some p \<Rightarrow> lookup (heap ls') p = None) \<and>
            contents ls' d = contents ls s) \<and>
         (\<exists>ls'. LargeBuffer_move_assign d s ls = Inr ls' \<and>
            move_count ls' = move_count ls + 1 \<and> copy_count ls' = copy_count ls \<and>
            (case m_data t of None \<Rightarrow> True | Some p \<Rightarrow> lookup (heap ls') p = None) \<and>
            contents ls' d = contents ls s) \<and>
         (\<exists>rs'. ResourceManager_copy_assign d' s' rs = Inr rs' \<and>
            default_constructions rs' = default_constructions rs \<and>
            copy_constructions rs' = copy_constructions rs \<and>
            move_constructions rs' = move_constructions rs \<and>
            destructions rs' = destructions rs \<and>
            (case m_data t' of None \<Rightarrow> True | Some p \<Rightarrow> lookup (heap rs') p = None) \<and>
            contents rs' d' = contents rs s') \<and>
         (\<exists>rs'. ResourceManager_move_assign d' s' rs = Inr rs' \<and>
            default_constructions rs' = default_constructions rs \<and>
            copy_constructions rs' = copy_constructions rs \<and>
            move_constructions rs' = move_constructions rs \<and>
            destructions rs' = destructions rs \<and>
            (case m_data t' of None \<Rightarrow> True | Some p \<Rightarrow> lookup (heap rs') p = None) \<and>
            contents rs' d' = contents rs s')"
proof -
  have ld: "d < length (objs ls)" using assms(2) by (rule lookup_Some_less)
  have ld': "d' < length (objs rs)" using assms(6) by (rule lookup_Some_less)
  have rel: "(case m_data b of None \<Rightarrow> True | Some p \<Rightarrow> lookup (h0 @ xs) p = None)"
    if "owns h b" "h0 = (case m_data b of None \<Rightarrow> h | Some p \<Rightarrow> h[p := None])" for b h h0 xs
    using that owns_live [OF that(1)]
    by (cases "m_data b") (simp_all add: lookup_def nth_append)
  note ot = live_heapD [OF assms(1,2)] and ot' = live_heapD [OF assms(5,6)]
  have c1: "\<exists>ls'. LargeBuffer_copy_assign d s ls = Inr ls' \<and>
            copy_count ls' = copy_count ls + 1 \<and> move_count ls' = move_count ls \<and>
            (case m_data t of None \<Rightarrow> True | Some p \<Rightarrow> lookup (heap ls') p = None) \<and>
            contents ls' d = contents ls s"
  proof -
    from LargeBuffer_copy_assign_eq [OF assms(1,2,3,4)] obtain h0 blk where
      h0: "h0 = (case m_data t of None \<Rightarrow> heap ls | Some p \<Rightarrow> (heap ls)[p := None])"
      and ct: "contents ls s = Some blk"
      and r: "LargeBuffer_copy_assign d s ls =
             Inr (ls\<lparr>objs := (objs ls)[d := Some \<lparr>m_data = Some (length h0), m_size = m_size o1\<rparr>],
                     heap := h0 @ [Some blk],
                     copy_count := copy_count ls + 1\<rparr>)"
      by blast
    have released: "case m_data t of None \<Rightarrow> True | Some p \<Rightarrow> lookup (h0 @ [Some blk]) p = None"
      by (rule rel [OF ot h0])
    have cont: "contents (ls\<lparr>objs := (objs ls)[d := Some \<lparr>m_data = Some (length h0), m_size = m_size o1\<rparr>],
                     heap := h0 @ [Some blk],
                     copy_count := copy_count ls + 1\<rparr>) d = Some blk"
      using ld by (simp add: contents_def lookup_update lookup_append)
    show ?thesis
      unfolding r using released cont ct by (simp split: option.splits)
  qed
  have c2: "\<exists>ls'. LargeBuffer_move_assign d s ls = Inr ls' \<and>
            move_count ls' = move_count ls + 1 \<and> copy_count ls' = copy_count ls \<and>
            (case m_data t of None \<Rightarrow> True | Some p \<Rightarrow> lookup (heap ls') p = None) \<and>
            contents ls' d = contents ls s"
  proof -
    from LargeBuffer_move_assign_eq [OF assms(1,2,3,4)] obtain h0 where
      h0: "h0 = (case m_data t of None \<Rightarrow> heap ls | Some p \<Rightarrow> (heap ls)[p := None])"
      and same: "\<forall>q. m_data o1 = Some q \<longrightarrow> lookup h0 q = lookup (heap ls) q"
      and r: "LargeBuffer_move_assign d s ls =
             Inr (ls\<lparr>objs := (objs ls)[d := Some \<lparr>m_data = m_data o1, m_size = m_size o1\<rparr>,
                                      s := Some \<lparr>m_data = None, m_size = 0\<rparr>],
                     heap := h0,
                     move_count := move_count ls + 1\<rparr>)"
      by blast
    have released: "case m_data t of None \<Rightarrow> True | Some p \<Rightarrow> lookup h0 p = None"
      using rel [OF ot h0, of "[]"] by (simp split: option.splits)
    have cont: "contents (ls\<lparr>objs := (objs ls)[d := Some \<lparr>m_data = m_data o1, m_size = m_size o1\<rparr>,
                                      s := Some \<lparr>m_data = None, m_size = 0\<rparr>],
                     heap := h0,
                     move_count := move_count ls + 1\<rparr>) d = contents ls s"
      using ld assms(3,4) same
      by (cases "m_data o1") (simp_all add: contents_def lookup_update)
    show ?thesis
      unfolding r using released cont by (simp split: option.splits)
  qed
  have c3: "\<exists>rs'. ResourceManager_copy_assign d' s' rs = Inr rs' \<and>
            default_constructions rs' = default_constructions rs \<and>
            copy_constructions rs' = copy_constructions rs \<and>
            move_constructions rs' = move_constructions rs \<and>
            destructions rs' = destructions rs \<and>
            (case m_data t' of None \<Rightarrow> True | Some p \<Rightarrow> lookup (heap rs') p = None) \<and>
            contents rs' d' = contents rs s'"
  proof -
    from ResourceManager_copy_assign_eq [OF assms(5,6,7,8)] obtain h0 blk where
      h0: "h0 = (case m_data t' of None \<Rightarrow> heap rs | Some p \<Rightarrow> (heap rs)[p := None])"
      and ct: "contents rs s' = Some blk" and l: "length blk = unat (m_size o1')"
      and r: "ResourceManager_copy_assign d' s' rs =
             Inr (if 0 < m_size o1'
                  then rs\<lparr>objs := (objs rs)[d' := Some \<lparr>m_data = Some (length h0), m_size = m_size o1'\<rparr>],
                          heap := h0 @ [Some blk]\<rparr>
                  else rs\<lparr>objs := (objs rs)[d' := Some \<lparr>m_data = None, m_size = m_size o1'\<rparr>],
                          heap := h0\<rparr>)"
      by blast
    have e: "blk = []" if "\<not> 0 < m_size o1'"
      using that l word_neq_0_conv [of "m_size o1'"] by auto
    have released: "case m_data t' of None \<Rightarrow> True | Some p \<Rightarrow> lookup (h0 @ [Some blk]) p = None"
      by (rule rel [OF ot' h0])
    have released0: "case m_data t' of None \<Rightarrow> True | Some p \<Rightarrow> lookup h0 p = None"
      using rel [OF ot' h0, of "[]"] by (simp split: option.splits)
    have cont: "contents (rs\<lparr>objs := (objs rs)[d' := Some \<lparr>m_data = Some (length h0), m_size = m_size o1'\<rparr>],
                          heap := h0 @ [Some blk]\<rparr>) d' = Some blk"
      using ld' by (simp add: contents_def lookup_update lookup_append)
    have cont0: "contents (rs\<lparr>objs := (objs rs)[d' := Some \<lparr>m_data = None, m_size = m_size o1'\<rparr>],
                          heap := h0\<rparr>) d' = Some []"
      using ld' by (simp add: contents_def lookup_update)
    show ?thesis
    proof (cases "0 < m_size o1'")
      case True
      then show ?thesis unfolding r using released cont ct by (simp split: option.splits)
    next
      case False
      then show ?thesis unfolding r using released0 cont0 ct e by (simp split: option.splits)
    qed
  qed
  have c4: "\<exists>rs'. ResourceManager_move_assign d' s' rs = Inr rs' \<and>
            default_constructions rs' = default_constructions rs \<and>
            copy_constructions rs' = copy_constructions rs \<and>
            move_constructions rs' = move_constructions rs \<and>
            destructions rs' = destructions rs \<and>
            (case m_data t' of None \<Rightarrow> True | Some p \<Rightarrow> lookup (heap rs') p = None) \<and>
            contents rs' d' = contents rs s'"
  proof -
    from ResourceManager_move_assign_eq [OF assms(5,6,7,8)] obtain h0 where
      h0: "h0 = (case m_data t' of None \<Rightarrow> heap rs | Some p \<Rightarrow> (heap rs)[p := None])"
      and same: "\<forall>q. m_data o1' = Some q \<longrightarrow> lookup h0 q = lookup (heap rs) q"
      and r: "ResourceManager_move_assign d' s' rs =
             Inr (rs\<lparr>objs := (objs rs)[d' := Some \<lparr>m_data = m_data o1', m_size = m_size o1'\<rparr>,
                                      s' := Some \<lparr>m_data = None, m_size = 0\<rparr>],
                     heap := h0\<rparr>)"
      by blast
    have released: "case m_data t' of None \<Rightarrow> True | Some p \<Rightarrow> lookup h0 p = None"
      using rel [OF ot' h0, of "[]"] by (simp split: option.splits)
    have cont: "contents (rs\<lparr>objs := (objs rs)[d' := Some \<lparr>m_data = m_data o1', m_size = m_size o1'\<rparr>,
                                      s' := Some \<lparr>m_data = None, m_size = 0\<rparr>],
                     heap := h0\<rparr>) d' = contents rs s'"
      using ld' assms(7,8) same
      by (cases "m_data o1'") (simp_all add: contents_def lookup_update)
    show ?thesis
      unfolding r using released cont by (simp split: option.splits)
  qed
  from c1 c2 c3 c4 show ?thesis by blast
qed

theorem assignment_counters_witness:
  "(\<exists>ls'. LargeBuffer_copy_assign 1 0 lb_example = Inr ls' \<and>
      copy_count ls' = 1 \<and> move_count ls' = 0 \<and> lookup (heap ls') 1 = None \<and>
      contents ls' 1 = Some [Some 5, Some 7]) \<and>
   (\<exists>ls'. LargeBuffer_move_assign 1 0 lb_example = Inr ls' \<and>
      move_count ls' = 1 \<and> copy_count ls' = 0 \<and> lookup (heap ls') 1 = None \<and>
      contents ls' 1 = Some [Some 5, Some 7]) \<and>
   (\<exists>rs'. ResourceManager_copy_assign 1 0 rm_example = Inr rs' \<and>
      default_constructions rs' = 2 \<and> copy_constructions rs' = 0 \<and>
      move_constructions rs' = 0 \<and> destructions rs' = 0 \<and> lookup (heap rs') 1 = None \<and>
      contents rs' 1 = Some [Some 5, Some 7]) \<and>
   (\<exists>rs'. ResourceManager_move_assign 1 0 rm_example = Inr rs' \<and>
      default_constructions rs' = 2 \<and> copy_constructions rs' = 0 \<and>
      move_constructions rs' = 0 \<and> destructions rs' = 0 \<and> lookup (heap rs') 1 = None \<and>
      contents rs' 1 = Some [Some 5, Some 7])"
proof -
  have c1: "contents rm_example 0 = Some [Some 5, Some 7]"
    by (simp add: contents_def rm_example_def lookup_def)
  have c2: "contents lb_example 0 = Some [Some 5, Some 7]"
    by (simp add: contents_def lb_example_def lookup_def)
  have n: "(1::nat) \<noteq> 0" by simp
  have k1: "copy_count lb_example = 0" "move_count lb_example = 0"
    by (simp_all add: lb_example_def)
  have k2: "default_constructions rm_example = 2" "copy_constructions rm_example = 0"
    "move_constructions rm_example = 0" "destructions rm_example = 0"
    by (simp_all add: rm_example_def)
  show ?thesis
    using assignment_counters [OF example_well_formed(2) lb_example_lookup(2,1) n
        example_well_formed(1) rm_example_lookup(2,1) n]
    by (simp add: c1 c2 k1 k2)
qed

text \<open>
  The claim as stated fails for \<^verbatim>\<open>ResourceManager\<close>: after a copy assignment and after a
  move assignment between two distinct buffers, \<^verbatim>\<open>copy_constructions_\<close> and
  \<^verbatim>\<open>move_constructions_\<close> are still 0.
\<close>

theorem assignment_counters_counterexample:
  "ResourceManager_copy_assign 1 0 rm_example =
     Inr \<lparr>objs = [Some \<lparr>m_data = Some 0, m_size = 2\<rparr>, Some \<lparr>m_data = Some 2, m_size = 2\<rparr>],
          heap = [Some [Some 5, Some 7], None, Some [Some 5, Some 7]],
          default_constructions = 2, copy_constructions = 0,
          move_constructions = 0, destructions = 0\<rparr> \<and>
   ResourceManager_move_assign 1 0 rm_example =
     Inr \<lparr>objs = [Some \<lparr>m_data = None, m_size = 0\<rparr>, Some \<lparr>m_data = Some 0, m_size = 2\<rparr>],
          heap = [Some [Some 5, Some 7], None],
          default_constructions = 2, copy_constructions = 0,
          move_constructions = 0, destructions = 0\<rparr>"
proof -
  have r2: "replicate 2 (None :: cint option) = [None, None]"
    by (simp add: numeral_2_eq_2)
  show ?thesis
    by (simp add: ResourceManager_copy_assign_def ResourceManager_move_assign_def rm_example_def
          lookup_def delete_array_def new_if_positive_eq std_copy_def load_def store_def r2
          allocatable_word)
qed

section \<open>Creation\<close>




end
